theory Spec2Isabelle
  imports Main
begin

section \<open>The D-Bus user interface of pantalaimon (\<^verbatim>\<open>pantalaimon/ui.py\<close>)\<close>

text \<open>
  The module bridges a D-Bus control surface and a daemon thread through two queues.
  Python objects that are shared between several owners (the \<^verbatim>\<open>IdCounter\<close> and the
  queues) live in an explicit object store, addressed by references, so that the sharing
  set up in \<^verbatim>\<open>GlibT.__attrs_post_init__\<close> is part of the model. Exceptions are values of
  the type \<open>error\<close>.
\<close>

subsection \<open>Errors\<close>

datatype error = Empty | DBusException | UninitializedError | AttributeError

subsection \<open>\<^verbatim>\<open>class IdCounter\<close>\<close>

text \<open>The field \<open>u_message_id\<close> is the attribute \<^verbatim>\<open>_message_id\<close>, a Python integer.\<close>

record IdCounter =
  u_message_id :: int

definition IdCounter_init :: IdCounter where
  "IdCounter_init = \<lparr>u_message_id = 0\<rparr>"

text \<open>The property \<^verbatim>\<open>IdCounter.message_id\<close>: returns the old value and adds one.\<close>

definition IdCounter_message_id :: "IdCounter \<Rightarrow> int \<times> IdCounter" where
  "IdCounter_message_id c =
     (let ret = u_message_id c
      in (ret, c\<lparr>u_message_id := u_message_id c + 1\<rparr>))"

text \<open>A sequence of \<open>n\<close> reads of the property on one counter, ids in call order.\<close>

fun message_ids :: "nat \<Rightarrow> IdCounter \<Rightarrow> int list \<times> IdCounter" where
  "message_ids 0 c = ([], c)"
| "message_ids (Suc n) c =
     (let (i, c1) = IdCounter_message_id c;
          (is, c2) = message_ids n c1
      in (i # is, c2))"

subsection \<open>Thread messages\<close>

text \<open>
  Modelled from the spec: the message classes of \<^verbatim>\<open>pantalaimon.thread_messages\<close>, which
  \<^verbatim>\<open>ui.py\<close> imports. Every command message carries its correlation id first, then the
  account (\<^verbatim>\<open>pan_user\<close>) and the fields of its kind, in the order in which \<^verbatim>\<open>ui.py\<close>
  passes them to the constructor.
\<close>

datatype command =
    ExportKeysMessage (message_id: int) string string string
  | ImportKeysMessage (message_id: int) string string string
  | SendAnywaysMessage (message_id: int) string string
  | CancelSendingMessage (message_id: int) string string
  | DeviceVerifyMessage (message_id: int) string string string
  | DeviceUnverifyMessage (message_id: int) string string string
  | DeviceBlacklistMessage (message_id: int) string string string
  | DeviceUnblacklistMessage (message_id: int) string string string
  | StartSasMessage (message_id: int) string string string
  | CancelSasMessage (message_id: int) string string string
  | AcceptSasMessage (message_id: int) string string string
  | ConfirmSasMessage (message_id: int) string string string

text \<open>
  What the daemon puts on the receive queue. The last constructor stands for an object of
  any class that is not an instance of the seven classes \<^verbatim>\<open>message_callback\<close> tests for;
  its argument is the name of that class.
\<close>

datatype event =
    UpdateDevicesMessage
  | UpdateUsersMessage
  | UnverifiedDevicesSignal string string string
  | InviteSasSignal string string string string
  | ShowSasSignal string string string string "(string \<times> string) list"
  | SasDoneSignal string string string string
  | DaemonResponse int string string string
  | OtherObject string

subsection \<open>Queues\<close>

text \<open>
  Modelled from the spec: the queue class is not part of the repository; the spec fixes
  an unbounded FIFO. \<^verbatim>\<open>put\<close> appends and never blocks, \<^verbatim>\<open>get_nowait\<close> removes the
  oldest item or raises \<^verbatim>\<open>Empty\<close>, and \<open>tasks_done\<close> counts the calls of
  \<^verbatim>\<open>task_done\<close>.
\<close>

record 'a queue =
  items :: "'a list"
  tasks_done :: nat

definition queue_put :: "'a queue \<Rightarrow> 'a \<Rightarrow> 'a queue" where
  "queue_put q m = q\<lparr>items := items q @ [m]\<rparr>"

definition queue_get_nowait :: "'a queue \<Rightarrow> error + ('a \<times> 'a queue)" where
  "queue_get_nowait q =
     (case items q of
        [] \<Rightarrow> Inl Empty
      | m # ms \<Rightarrow> Inr (m, q\<lparr>items := ms\<rparr>))"

definition queue_task_done :: "'a queue \<Rightarrow> 'a queue" where
  "queue_task_done q = q\<lparr>tasks_done := Suc (tasks_done q)\<rparr>"

subsection \<open>External collaborators\<close>

text \<open>
  Modelled from the spec: \<^verbatim>\<open>PanStore\<close> is a read-only snapshot provider. The record holds
  what its three loading methods return for the present contents of the database; the
  daemon changes these contents between calls. Dictionaries whose order is observable
  (\<^verbatim>\<open>.values()\<close>) are association lists.
\<close>

type_synonym device = "(string \<times> string) list"

type_synonym device_store = "(string \<times> (string \<times> device) list) list"

record PanStore =
  load_users :: "string \<Rightarrow> (string \<times> string) list"
  load_all_users :: "(string \<times> string) list"
  load_all_devices :: "(string \<times> device_store) list"

text \<open>An entry of \<^verbatim>\<open>server_list\<close>; only its \<^verbatim>\<open>name\<close> is read.\<close>

record server =
  name :: string

text \<open>The D-Bus signals of the two published interfaces.\<close>

datatype signal =
    Response int string "(string \<times> string) list"
  | UnverifiedDevices string string string
  | VerificationInvite string string string string
  | VerificationString string string string string "(string \<times> string) list"
  | VerificationCancel string string string string string string
  | VerificationDone string string string string

text \<open>
  The closures that the notification functions register as actions. A closure captures
  \<^verbatim>\<open>self\<close>; it is named by a tag and run by \<open>invoke\<close> below.
\<close>

datatype callback =
    unverified_send_cb
  | unverified_cancel_cb
  | invite_accept_cb
  | invite_cancel_cb
  | show_confirm_cb
  | show_cancel_cb

text \<open>
  A \<^verbatim>\<open>notify2.Notification\<close>: summary, body (the keyword \<^verbatim>\<open>message\<close>), category, and the
  actions added to it: key, label, callback and user data.
\<close>

record Notification =
  summary :: string
  body :: string
  category :: string
  actions :: "(string \<times> string \<times> callback \<times> event) list"

text \<open>
  Modelled from the spec: the \<^verbatim>\<open>notify2\<close> module and the notification server behind it.
  \<open>server_caps\<close> is \<open>None\<close> when no notification server is on the bus, else the
  capabilities the server reports. \<open>caps_queries\<close> counts the calls of
  \<^verbatim>\<open>get_server_caps\<close>, \<open>shown\<close> lists the notifications handed to the server.
\<close>

record notify2_module =
  server_caps :: "string list option"
  initted :: bool
  caps_queries :: nat
  shown :: "Notification list"

definition notify2_init :: "notify2_module \<Rightarrow> error + notify2_module" where
  "notify2_init n =
     (case server_caps n of
        None \<Rightarrow> Inl DBusException
      | Some caps \<Rightarrow> Inr (n\<lparr>initted := True\<rparr>))"

definition get_server_caps :: "notify2_module \<Rightarrow> error + (string list \<times> notify2_module)" where
  "get_server_caps n =
     (if \<not> initted n then Inl UninitializedError
      else case server_caps n of
             None \<Rightarrow> Inl DBusException
           | Some caps \<Rightarrow> Inr (caps, n\<lparr>caps_queries := Suc (caps_queries n)\<rparr>))"

definition Notification_show :: "Notification \<Rightarrow> notify2_module \<Rightarrow> error + notify2_module" where
  "Notification_show x n =
     (if \<not> initted n then Inl UninitializedError
      else case server_caps n of
             None \<Rightarrow> Inl DBusException
           | Some caps \<Rightarrow> Inr (n\<lparr>shown := shown n @ [x]\<rparr>))"

subsection \<open>The object store and the environment\<close>

type_synonym ref = nat

record world =
  counters :: "ref \<Rightarrow> IdCounter"
  next_ref :: ref
  command_queues :: "ref \<Rightarrow> command queue"
  event_queues :: "ref \<Rightarrow> event queue"
  pan_store :: PanStore
  notify2 :: notify2_module
  signals :: "signal list"
  log_errors :: "string list"

text \<open>\<^verbatim>\<open>IdCounter()\<close>: a new object at an address not used before.\<close>

definition new_IdCounter :: "world \<Rightarrow> ref \<times> world" where
  "new_IdCounter w =
     (next_ref w,
      w\<lparr>counters := (counters w)(next_ref w := IdCounter_init),
        next_ref := Suc (next_ref w)\<rparr>)"

definition put :: "ref \<Rightarrow> command \<Rightarrow> world \<Rightarrow> world" where
  "put q m w = w\<lparr>command_queues := (command_queues w)(q := queue_put (command_queues w q) m)\<rparr>"

definition emit :: "signal \<Rightarrow> world \<Rightarrow> world" where
  "emit x w = w\<lparr>signals := signals w @ [x]\<rparr>"

subsection \<open>\<^verbatim>\<open>class Control\<close>\<close>

text \<open>
  \<open>users\<close> is the \<^verbatim>\<open>defaultdict\<close>, which no method reads at a missing key. The attribute
  \<^verbatim>\<open>store\<close> of this class and of \<^verbatim>\<open>Devices\<close> is the one \<^verbatim>\<open>PanStore\<close> that \<^verbatim>\<open>GlibT\<close> opens:
  its contents are the \<open>pan_store\<close> of the world.
\<close>

record Control =
  server_list :: "server list"
  users :: "string \<rightharpoonup> (string \<times> string) list"
  queue :: ref
  id_counter :: ref

text \<open>
  \<^verbatim>\<open>update_users\<close>: one assignment \<^verbatim>\<open>self.users[server.name] = ...\<close> for each server of the
  list, in order.
\<close>

definition update_users :: "Control \<Rightarrow> world \<Rightarrow> Control" where
  "update_users self w =
     fold (\<lambda>server c. c\<lparr>users := (users c)(name server \<mapsto> load_users (pan_store w) (name server))\<rparr>)
          (server_list self) self"

definition Control_init :: "ref \<Rightarrow> server list \<Rightarrow> ref \<Rightarrow> world \<Rightarrow> Control" where
  "Control_init q sl idc w =
     update_users \<lparr>server_list = sl, users = Map.empty, queue = q, id_counter = idc\<rparr> w"

definition Control_message_id :: "Control \<Rightarrow> world \<Rightarrow> int \<times> world" where
  "Control_message_id self w =
     (let (ret, c) = IdCounter_message_id (counters w (id_counter self))
      in (ret, w\<lparr>counters := (counters w)(id_counter self := c)\<rparr>))"

definition ListServers :: "Control \<Rightarrow> world \<Rightarrow> (string \<rightharpoonup> (string \<times> string) list) \<times> world" where
  "ListServers self w = (users self, w)"

definition ExportKeys :: "Control \<Rightarrow> string \<Rightarrow> string \<Rightarrow> string \<Rightarrow> world \<Rightarrow> int \<times> world" where
  "ExportKeys self pan_user filepath passphrase w =
     (let (i, w1) = Control_message_id self w;
          message = ExportKeysMessage i pan_user filepath passphrase;
          w2 = put (queue self) message w1
      in (message_id message, w2))"

definition ImportKeys :: "Control \<Rightarrow> string \<Rightarrow> string \<Rightarrow> string \<Rightarrow> world \<Rightarrow> int \<times> world" where
  "ImportKeys self pan_user filepath passphrase w =
     (let (i, w1) = Control_message_id self w;
          message = ImportKeysMessage i pan_user filepath passphrase;
          w2 = put (queue self) message w1
      in (message_id message, w2))"

definition SendAnyways :: "Control \<Rightarrow> string \<Rightarrow> string \<Rightarrow> world \<Rightarrow> int \<times> world" where
  "SendAnyways self pan_user room_id w =
     (let (i, w1) = Control_message_id self w;
          message = SendAnywaysMessage i pan_user room_id;
          w2 = put (queue self) message w1
      in (message_id message, w2))"

definition CancelSending :: "Control \<Rightarrow> string \<Rightarrow> string \<Rightarrow> world \<Rightarrow> int \<times> world" where
  "CancelSending self pan_user room_id w =
     (let (i, w1) = Control_message_id self w;
          message = CancelSendingMessage i pan_user room_id;
          w2 = put (queue self) message w1
      in (message_id message, w2))"

subsection \<open>\<^verbatim>\<open>class Devices\<close>\<close>

text \<open>\<open>device_list\<close> is \<open>None\<close> until \<^verbatim>\<open>update_devices\<close> has run, as in \<^verbatim>\<open>__init__\<close>.\<close>

record Devices =
  device_list :: "(string \<times> device_store) list option"
  queue :: ref
  id_counter :: ref

definition update_devices :: "Devices \<Rightarrow> world \<Rightarrow> Devices" where
  "update_devices self w = self\<lparr>device_list := Some (load_all_devices (pan_store w))\<rparr>"

definition Devices_init :: "ref \<Rightarrow> ref \<Rightarrow> world \<Rightarrow> Devices" where
  "Devices_init q idc w =
     update_devices \<lparr>device_list = None, queue = q, id_counter = idc\<rparr> w"

definition Devices_message_id :: "Devices \<Rightarrow> world \<Rightarrow> int \<times> world" where
  "Devices_message_id self w =
     (let (ret, c) = IdCounter_message_id (counters w (Devices.id_counter self))
      in (ret, w\<lparr>counters := (counters w)(Devices.id_counter self := c)\<rparr>))"

text \<open>
  \<^verbatim>\<open>List\<close> and \<^verbatim>\<open>ListUserDevices\<close>: \<^verbatim>\<open>.get(key, None)\<close> is \<open>map_of\<close>; \<^verbatim>\<open>not x\<close> holds for
  \<^verbatim>\<open>None\<close> and for the empty dictionary; calling \<^verbatim>\<open>.get\<close> on \<^verbatim>\<open>None\<close> raises. The
  local variable that shadows \<^verbatim>\<open>device_list\<close> is written \<open>device_list'\<close>.
\<close>

definition List :: "Devices \<Rightarrow> string \<Rightarrow> world \<Rightarrow> error + (device list \<times> world)" where
  "List self pan_user w =
     (case device_list self of
        None \<Rightarrow> Inl AttributeError
      | Some dl \<Rightarrow>
          (case map_of dl pan_user of
             None \<Rightarrow> Inr ([], w)
           | Some device_store \<Rightarrow>
               if device_store = [] then Inr ([], w)
               else Inr (concat (map (\<lambda>device_list'. map snd device_list')
                                     (map snd device_store)), w)))"

definition ListUserDevices ::
  "Devices \<Rightarrow> string \<Rightarrow> string \<Rightarrow> world \<Rightarrow> error + (device list \<times> world)" where
  "ListUserDevices self pan_user user_id w =
     (case device_list self of
        None \<Rightarrow> Inl AttributeError
      | Some dl \<Rightarrow>
          (case map_of dl pan_user of
             None \<Rightarrow> Inr ([], w)
           | Some device_store \<Rightarrow>
               if device_store = [] then Inr ([], w)
               else (case map_of device_store user_id of
                       None \<Rightarrow> Inr ([], w)
                     | Some device_list' \<Rightarrow>
                         if device_list' = [] then Inr ([], w)
                         else Inr (map snd device_list', w))))"

definition Verify :: "Devices \<Rightarrow> string \<Rightarrow> string \<Rightarrow> string \<Rightarrow> world \<Rightarrow> int \<times> world" where
  "Verify self pan_user user_id device_id w =
     (let (i, w1) = Devices_message_id self w;
          message = DeviceVerifyMessage i pan_user user_id device_id;
          w2 = put (Devices.queue self) message w1
      in (message_id message, w2))"

definition Unverify :: "Devices \<Rightarrow> string \<Rightarrow> string \<Rightarrow> string \<Rightarrow> world \<Rightarrow> int \<times> world" where
  "Unverify self pan_user user_id device_id w =
     (let (i, w1) = Devices_message_id self w;
          message = DeviceUnverifyMessage i pan_user user_id device_id;
          w2 = put (Devices.queue self) message w1
      in (message_id message, w2))"

definition Blacklist :: "Devices \<Rightarrow> string \<Rightarrow> string \<Rightarrow> string \<Rightarrow> world \<Rightarrow> int \<times> world" where
  "Blacklist self pan_user user_id device_id w =
     (let (i, w1) = Devices_message_id self w;
          message = DeviceBlacklistMessage i pan_user user_id device_id;
          w2 = put (Devices.queue self) message w1
      in (message_id message, w2))"

definition Unblacklist :: "Devices \<Rightarrow> string \<Rightarrow> string \<Rightarrow> string \<Rightarrow> world \<Rightarrow> int \<times> world" where
  "Unblacklist self pan_user user_id device_id w =
     (let (i, w1) = Devices_message_id self w;
          message = DeviceUnblacklistMessage i pan_user user_id device_id;
          w2 = put (Devices.queue self) message w1
      in (message_id message, w2))"

definition StartKeyVerification ::
  "Devices \<Rightarrow> string \<Rightarrow> string \<Rightarrow> string \<Rightarrow> world \<Rightarrow> int \<times> world" where
  "StartKeyVerification self pan_user user_id device_id w =
     (let (i, w1) = Devices_message_id self w;
          message = StartSasMessage i pan_user user_id device_id;
          w2 = put (Devices.queue self) message w1
      in (message_id message, w2))"

definition CancelKeyVerification ::
  "Devices \<Rightarrow> string \<Rightarrow> string \<Rightarrow> string \<Rightarrow> world \<Rightarrow> int \<times> world" where
  "CancelKeyVerification self pan_user user_id device_id w =
     (let (i, w1) = Devices_message_id self w;
          message = CancelSasMessage i pan_user user_id device_id;
          w2 = put (Devices.queue self) message w1
      in (message_id message, w2))"

definition ConfirmKeyVerification ::
  "Devices \<Rightarrow> string \<Rightarrow> string \<Rightarrow> string \<Rightarrow> world \<Rightarrow> int \<times> world" where
  "ConfirmKeyVerification self pan_user user_id device_id w =
     (let (i, w1) = Devices_message_id self w;
          message = ConfirmSasMessage i pan_user user_id device_id;
          w2 = put (Devices.queue self) message w1
      in (message_id message, w2))"

definition AcceptKeyVerification ::
  "Devices \<Rightarrow> string \<Rightarrow> string \<Rightarrow> string \<Rightarrow> world \<Rightarrow> int \<times> world" where
  "AcceptKeyVerification self pan_user user_id device_id w =
     (let (i, w1) = Devices_message_id self w;
          message = AcceptSasMessage i pan_user user_id device_id;
          w2 = put (Devices.queue self) message w1
      in (message_id message, w2))"

subsection \<open>\<^verbatim>\<open>class GlibT\<close>\<close>

text \<open>
  \<open>config\<close> is read for \<^verbatim>\<open>config.notifications\<close> only. \<open>loop\<close> tells whether a main loop
  object is held (\<^verbatim>\<open>None\<close> otherwise). The attribute \<^verbatim>\<open>store\<close> is the store of the world;
  \<^verbatim>\<open>bus\<close> and the never assigned \<^verbatim>\<open>devices\<close> are left out.
\<close>

record PanConfig =
  notifications :: bool

record GlibT =
  receive_queue :: ref
  send_queue :: ref
  data_dir :: string
  server_list :: "server list"
  config :: PanConfig
  loop :: bool
  users :: "(string \<times> string) list"
  control_if :: Control
  device_if :: Devices
  notifications :: bool

text \<open>
  \<^verbatim>\<open>__attrs_post_init__\<close>: one \<^verbatim>\<open>IdCounter\<close> is created and handed to both interfaces,
  together with the send queue.
\<close>

definition GlibT_init ::
  "ref \<Rightarrow> ref \<Rightarrow> string \<Rightarrow> server list \<Rightarrow> PanConfig \<Rightarrow> world \<Rightarrow> GlibT \<times> world" where
  "GlibT_init rq sq dd sl cfg w =
     (let (id_counter, w1) = new_IdCounter w
      in (\<lparr>receive_queue = rq, send_queue = sq, data_dir = dd, server_list = sl,
           config = cfg, loop = False, users = load_all_users (pan_store w),
           control_if = Control_init sq sl id_counter w1,
           device_if = Devices_init sq id_counter w1,
           notifications = False\<rparr>, w1))"

text \<open>\<^verbatim>\<open>str.join\<close>.\<close>

fun join :: "string \<Rightarrow> string list \<Rightarrow> string" where
  "join sep [] = []"
| "join sep [x] = x"
| "join sep (x # y # ys) = x @ sep @ join sep (y # ys)"

text \<open>
  The notification functions. Reading an attribute that the message does not have raises
  \<^verbatim>\<open>AttributeError\<close>. The actions are added when the server reports the capability
  \<^verbatim>\<open>actions\<close>, which is asked for in each call.
\<close>

fun unverified_notification :: "GlibT \<Rightarrow> event \<Rightarrow> world \<Rightarrow> error + world" where
  "unverified_notification self (UnverifiedDevicesSignal pan_user room_id room_display_name) w =
     (let message = UnverifiedDevicesSignal pan_user room_id room_display_name;
          notificaton = \<lparr>summary = ''Unverified devices.'',
                         body = ''There are unverified devices in the room '' @
                                room_display_name @ ''.'',
                         category = [], actions = []\<rparr>;
          notificaton = notificaton\<lparr>category := ''im''\<rparr>
      in case get_server_caps (notify2 w) of
           Inl e \<Rightarrow> Inl e
         | Inr (caps, n1) \<Rightarrow>
             (let notificaton =
                    (if ''actions'' \<in> set caps
                     then notificaton\<lparr>actions := actions notificaton @
                            [(''send'', ''Send anyways'', unverified_send_cb, message),
                             (''cancel'', ''Cancel sending'', unverified_cancel_cb, message)]\<rparr>
                     else notificaton)
              in case Notification_show notificaton n1 of
                   Inl e \<Rightarrow> Inl e
                 | Inr n2 \<Rightarrow> Inr (w\<lparr>notify2 := n2\<rparr>)))"
| "unverified_notification self _ w = Inl AttributeError"

fun sas_invite_notification :: "GlibT \<Rightarrow> event \<Rightarrow> world \<Rightarrow> error + world" where
  "sas_invite_notification self (InviteSasSignal pan_user user_id device_id transaction_id) w =
     (let message = InviteSasSignal pan_user user_id device_id transaction_id;
          notificaton = \<lparr>summary = ''Key verification invite'',
                         body = user_id @ '' via '' @ device_id @
                                '' has started a key verification process.'',
                         category = [], actions = []\<rparr>;
          notificaton = notificaton\<lparr>category := ''im''\<rparr>
      in case get_server_caps (notify2 w) of
           Inl e \<Rightarrow> Inl e
         | Inr (caps, n1) \<Rightarrow>
             (let notificaton =
                    (if ''actions'' \<in> set caps
                     then notificaton\<lparr>actions := actions notificaton @
                            [(''accept'', ''Accept'', invite_accept_cb, message),
                             (''cancel'', ''Cancel'', invite_cancel_cb, message)]\<rparr>
                     else notificaton)
              in case Notification_show notificaton n1 of
                   Inl e \<Rightarrow> Inl e
                 | Inr n2 \<Rightarrow> Inr (w\<lparr>notify2 := n2\<rparr>)))"
| "sas_invite_notification self _ w = Inl AttributeError"

fun sas_show_notification :: "GlibT \<Rightarrow> event \<Rightarrow> world \<Rightarrow> error + world" where
  "sas_show_notification self (ShowSasSignal pan_user user_id device_id transaction_id emoji) w =
     (let message = ShowSasSignal pan_user user_id device_id transaction_id emoji;
          emojis = map fst emoji;
          emoji_str = join ''   '' emojis;
          notificaton = \<lparr>summary = ''Short authentication string'',
                         body = ''Short authentication string for the key verification of'' @
                                '' '' @ user_id @ '' via '' @ device_id @ '':'' @ [CHR 0x0A] @
                                emoji_str,
                         category = [], actions = []\<rparr>;
          notificaton = notificaton\<lparr>category := ''im''\<rparr>
      in case get_server_caps (notify2 w) of
           Inl e \<Rightarrow> Inl e
         | Inr (caps, n1) \<Rightarrow>
             (let notificaton =
                    (if ''actions'' \<in> set caps
                     then notificaton\<lparr>actions := actions notificaton @
                            [(''confirm'', ''Confirm'', show_confirm_cb, message),
                             (''cancel'', ''Cancel'', show_cancel_cb, message)]\<rparr>
                     else notificaton)
              in case Notification_show notificaton n1 of
                   Inl e \<Rightarrow> Inl e
                 | Inr n2 \<Rightarrow> Inr (w\<lparr>notify2 := n2\<rparr>)))"
| "sas_show_notification self _ w = Inl AttributeError"

fun sas_done_notification :: "GlibT \<Rightarrow> event \<Rightarrow> world \<Rightarrow> error + world" where
  "sas_done_notification self (SasDoneSignal pan_user user_id device_id transaction_id) w =
     (let notificaton = \<lparr>summary = ''Device successfully verified.'',
                         body = ''Device '' @ device_id @ '' of user '' @ user_id @
                                '' successfully verified.'',
                         category = [], actions = []\<rparr>;
          notificaton = notificaton\<lparr>category := ''im''\<rparr>
      in case Notification_show notificaton (notify2 w) of
           Inl e \<Rightarrow> Inl e
         | Inr n2 \<Rightarrow> Inr (w\<lparr>notify2 := n2\<rparr>))"
| "sas_done_notification self _ w = Inl AttributeError"

text \<open>
  The bodies of the closures \<^verbatim>\<open>send_cb\<close>, \<^verbatim>\<open>cancel_cb\<close>, \<^verbatim>\<open>accept_cb\<close> and \<^verbatim>\<open>confirm_cb\<close>,
  applied to the user data. Each reads \<^verbatim>\<open>pan_user\<close> and \<^verbatim>\<open>room_id\<close>, or \<^verbatim>\<open>pan_user\<close>,
  \<^verbatim>\<open>user_id\<close> and \<^verbatim>\<open>device_id\<close>, and raises on a message without them; the id that the
  called method returns is dropped.
\<close>

fun invoke :: "callback \<Rightarrow> GlibT \<Rightarrow> event \<Rightarrow> world \<Rightarrow> error + world" where
  "invoke unverified_send_cb self (UnverifiedDevicesSignal pan_user room_id d) w =
     Inr (snd (SendAnyways (control_if self) pan_user room_id w))"
| "invoke unverified_cancel_cb self (UnverifiedDevicesSignal pan_user room_id d) w =
     Inr (snd (CancelSending (control_if self) pan_user room_id w))"
| "invoke invite_accept_cb self (InviteSasSignal pan_user user_id device_id t) w =
     Inr (snd (AcceptKeyVerification (device_if self) pan_user user_id device_id w))"
| "invoke invite_accept_cb self (ShowSasSignal pan_user user_id device_id t e) w =
     Inr (snd (AcceptKeyVerification (device_if self) pan_user user_id device_id w))"
| "invoke invite_accept_cb self (SasDoneSignal pan_user user_id device_id t) w =
     Inr (snd (AcceptKeyVerification (device_if self) pan_user user_id device_id w))"
| "invoke invite_cancel_cb self (InviteSasSignal pan_user user_id device_id t) w =
     Inr (snd (CancelKeyVerification (device_if self) pan_user user_id device_id w))"
| "invoke invite_cancel_cb self (ShowSasSignal pan_user user_id device_id t e) w =
     Inr (snd (CancelKeyVerification (device_if self) pan_user user_id device_id w))"
| "invoke invite_cancel_cb self (SasDoneSignal pan_user user_id device_id t) w =
     Inr (snd (CancelKeyVerification (device_if self) pan_user user_id device_id w))"
| "invoke show_confirm_cb self (InviteSasSignal pan_user user_id device_id t) w =
     Inr (snd (ConfirmKeyVerification (device_if self) pan_user user_id device_id w))"
| "invoke show_confirm_cb self (ShowSasSignal pan_user user_id device_id t e) w =
     Inr (snd (ConfirmKeyVerification (device_if self) pan_user user_id device_id w))"
| "invoke show_confirm_cb self (SasDoneSignal pan_user user_id device_id t) w =
     Inr (snd (ConfirmKeyVerification (device_if self) pan_user user_id device_id w))"
| "invoke show_cancel_cb self (InviteSasSignal pan_user user_id device_id t) w =
     Inr (snd (CancelKeyVerification (device_if self) pan_user user_id device_id w))"
| "invoke show_cancel_cb self (ShowSasSignal pan_user user_id device_id t e) w =
     Inr (snd (CancelKeyVerification (device_if self) pan_user user_id device_id w))"
| "invoke show_cancel_cb self (SasDoneSignal pan_user user_id device_id t) w =
     Inr (snd (CancelKeyVerification (device_if self) pan_user user_id device_id w))"
| "invoke _ self _ w = Inl AttributeError"

text \<open>
  \<^verbatim>\<open>message_callback\<close>: one attempt to take a message; the chain of \<^verbatim>\<open>isinstance\<close> tests
  in the order of the source; then \<^verbatim>\<open>task_done\<close> and the result \<^verbatim>\<open>True\<close>. The debug log
  line is not recorded.
\<close>

definition message_callback :: "GlibT \<Rightarrow> world \<Rightarrow> error + (bool \<times> GlibT \<times> world)" where
  "message_callback self w =
     (case queue_get_nowait (event_queues w (receive_queue self)) of
        Inl e \<Rightarrow> (case e of Empty \<Rightarrow> Inr (True, self, w) | _ \<Rightarrow> Inl e)
      | Inr (message, q) \<Rightarrow>
          (let w0 = w\<lparr>event_queues := (event_queues w)(receive_queue self := q)\<rparr>
           in case
                (case message of
                   UpdateDevicesMessage \<Rightarrow>
                     Inr (self\<lparr>device_if := update_devices (device_if self) w0\<rparr>, w0)
                 | UpdateUsersMessage \<Rightarrow>
                     Inr (self\<lparr>control_if := update_users (control_if self) w0\<rparr>, w0)
                 | UnverifiedDevicesSignal pan_user room_id room_display_name \<Rightarrow>
                     (let w1 = emit (UnverifiedDevices pan_user room_id room_display_name) w0
                      in if notifications self
                         then (case unverified_notification self message w1 of
                                 Inl e \<Rightarrow> Inl e
                               | Inr w2 \<Rightarrow> Inr (self, w2))
                         else Inr (self, w1))
                 | InviteSasSignal pan_user user_id device_id transaction_id \<Rightarrow>
                     (let w1 = emit (VerificationInvite pan_user user_id device_id
                                       transaction_id) w0
                      in if notifications self
                         then (case sas_invite_notification self message w1 of
                                 Inl e \<Rightarrow> Inl e
                               | Inr w2 \<Rightarrow> Inr (self, w2))
                         else Inr (self, w1))
                 | ShowSasSignal pan_user user_id device_id transaction_id emoji \<Rightarrow>
                     (let w1 = emit (VerificationString pan_user user_id device_id
                                       transaction_id emoji) w0
                      in if notifications self
                         then (case sas_show_notification self message w1 of
                                 Inl e \<Rightarrow> Inl e
                               | Inr w2 \<Rightarrow> Inr (self, w2))
                         else Inr (self, w1))
                 | SasDoneSignal pan_user user_id device_id transaction_id \<Rightarrow>
                     (let w1 = emit (VerificationDone pan_user user_id device_id
                                       transaction_id) w0
                      in if notifications self
                         then (case sas_done_notification self message w1 of
                                 Inl e \<Rightarrow> Inl e
                               | Inr w2 \<Rightarrow> Inr (self, w2))
                         else Inr (self, w1))
                 | DaemonResponse message_id' pan_user code message' \<Rightarrow>
                     Inr (self, emit (Response message_id' pan_user
                                        [(''code'', code), (''message'', message')]) w0)
                 | OtherObject cls \<Rightarrow> Inr (self, w0))
              of
                Inl e \<Rightarrow> Inl e
              | Inr (self1, w3) \<Rightarrow>
                  Inr (True, self1,
                       w3\<lparr>event_queues := (event_queues w3)
                            (receive_queue self :=
                               queue_task_done (event_queues w3 (receive_queue self)))\<rparr>)))"

text \<open>
  \<^verbatim>\<open>run\<close> up to the point where the main loop takes over: the loop object, the
  initialisation of the notifications and its \<^verbatim>\<open>except dbus.DBusException\<close>. The main loop
  itself is the function \<open>exec\<close> below.
\<close>

definition run :: "GlibT \<Rightarrow> world \<Rightarrow> error + (GlibT \<times> world)" where
  "run self w =
     (let self1 = self\<lparr>loop := True\<rparr>
      in if PanConfig.notifications (config self1)
         then (case notify2_init (notify2 w) of
                 Inr n \<Rightarrow> Inr (self1\<lparr>notifications := True\<rparr>, w\<lparr>notify2 := n\<rparr>)
               | Inl e \<Rightarrow>
                   (case e of
                      DBusException \<Rightarrow>
                        Inr (self1\<lparr>notifications := False\<rparr>,
                             w\<lparr>log_errors := log_errors w @
                                  [''Notifications are enabled but no notification '' @
                                   ''server could be found, disabling notifications.'']\<rparr>)
                    | _ \<Rightarrow> Inl e))
         else Inr (self1, w))"

definition stop :: "GlibT \<Rightarrow> GlibT" where
  "stop self = (if loop self then self\<lparr>loop := False\<rparr> else self)"

subsection \<open>The process: construction, \<^verbatim>\<open>run\<close>, and what the main loop dispatches\<close>

text \<open>The twelve methods of the two interfaces that issue a command, with their arguments.\<close>

datatype operation =
    ExportKeys_op string string string
  | ImportKeys_op string string string
  | SendAnyways_op string string
  | CancelSending_op string string
  | Verify_op string string string
  | Unverify_op string string string
  | Blacklist_op string string string
  | Unblacklist_op string string string
  | StartKeyVerification_op string string string
  | CancelKeyVerification_op string string string
  | AcceptKeyVerification_op string string string
  | ConfirmKeyVerification_op string string string

text \<open>A D-Bus method call is routed to the published object that has the method.\<close>

fun perform :: "operation \<Rightarrow> GlibT \<Rightarrow> world \<Rightarrow> int \<times> world" where
  "perform (ExportKeys_op u f p) self w = ExportKeys (control_if self) u f p w"
| "perform (ImportKeys_op u f p) self w = ImportKeys (control_if self) u f p w"
| "perform (SendAnyways_op u r) self w = SendAnyways (control_if self) u r w"
| "perform (CancelSending_op u r) self w = CancelSending (control_if self) u r w"
| "perform (Verify_op u x d) self w = Verify (device_if self) u x d w"
| "perform (Unverify_op u x d) self w = Unverify (device_if self) u x d w"
| "perform (Blacklist_op u x d) self w = Blacklist (device_if self) u x d w"
| "perform (Unblacklist_op u x d) self w = Unblacklist (device_if self) u x d w"
| "perform (StartKeyVerification_op u x d) self w = StartKeyVerification (device_if self) u x d w"
| "perform (CancelKeyVerification_op u x d) self w = CancelKeyVerification (device_if self) u x d w"
| "perform (AcceptKeyVerification_op u x d) self w = AcceptKeyVerification (device_if self) u x d w"
| "perform (ConfirmKeyVerification_op u x d) self w = ConfirmKeyVerification (device_if self) u x d w"

text \<open>The queue on which the method of an operation puts its message.\<close>

fun queue_of :: "operation \<Rightarrow> GlibT \<Rightarrow> ref" where
  "queue_of (ExportKeys_op u f p) self = Control.queue (control_if self)"
| "queue_of (ImportKeys_op u f p) self = Control.queue (control_if self)"
| "queue_of (SendAnyways_op u r) self = Control.queue (control_if self)"
| "queue_of (CancelSending_op u r) self = Control.queue (control_if self)"
| "queue_of _ self = Devices.queue (device_if self)"

text \<open>
  What the main loop does, one action at a time: a method call from a D-Bus client, a
  tick of the timer (\<^verbatim>\<open>message_callback\<close>), the user triggering the action \<open>key\<close> of the
  \<open>n\<close>-th notification shown, the daemon putting a message on the receive queue, and the
  daemon changing the store. The daemon taking commands is left out, so that the send
  queue holds every command put on it, oldest first. \<open>step\<close> also gives the ids returned
  to D-Bus callers.
\<close>

datatype action =
    Call operation
  | Tick
  | Activate nat string
  | DaemonPut event
  | DaemonStore PanStore

fun step :: "action \<Rightarrow> GlibT \<times> world \<Rightarrow> error + (int list \<times> GlibT \<times> world)" where
  "step (Call op) (self, w) = (let (i, w1) = perform op self w in Inr ([i], self, w1))"
| "step Tick (self, w) =
     (case message_callback self w of
        Inl e \<Rightarrow> Inl e
      | Inr (again, self1, w1) \<Rightarrow> Inr ([], self1, w1))"
| "step (Activate n key) (self, w) =
     (if n < length (shown (notify2 w))
      then (case find (\<lambda>a. fst a = key) (actions (shown (notify2 w) ! n)) of
              None \<Rightarrow> Inr ([], self, w)
            | Some (k, label, cb, user_data) \<Rightarrow>
                (case invoke cb self user_data w of
                   Inl e \<Rightarrow> Inl e
                 | Inr w1 \<Rightarrow> Inr ([], self, w1)))
      else Inr ([], self, w))"
| "step (DaemonPut m) (self, w) =
     Inr ([], self,
          w\<lparr>event_queues := (event_queues w)
               (receive_queue self := queue_put (event_queues w (receive_queue self)) m)\<rparr>)"
| "step (DaemonStore s) (self, w) = Inr ([], self, w\<lparr>pan_store := s\<rparr>)"

fun exec :: "action list \<Rightarrow> GlibT \<times> world \<Rightarrow> error + (int list \<times> GlibT \<times> world)" where
  "exec [] (self, w) = Inr ([], self, w)"
| "exec (a # as) (self, w) =
     (case step a (self, w) of
        Inl e \<Rightarrow> Inl e
      | Inr (ids, self1, w1) \<Rightarrow>
          (case exec as (self1, w1) of
             Inl e \<Rightarrow> Inl e
           | Inr (ids', self2, w2) \<Rightarrow> Inr (ids @ ids', self2, w2)))"

text \<open>Construction followed by \<^verbatim>\<open>run\<close>, as the thread that owns the interface does.\<close>

definition start ::
  "ref \<Rightarrow> ref \<Rightarrow> string \<Rightarrow> server list \<Rightarrow> PanConfig \<Rightarrow> world \<Rightarrow> error + (GlibT \<times> world)" where
  "start rq sq dd sl cfg w = (let (self, w1) = GlibT_init rq sq dd sl cfg w in run self w1)"

section \<open>Notions used in the statements\<close>

text \<open>\<^verbatim>\<open>notify2\<close> can be used: it is initialised and a notification server is there.\<close>

definition ready :: "notify2_module \<Rightarrow> bool" where
  "ready n \<longleftrightarrow> initted n \<and> server_caps n \<noteq> None"

text \<open>
  The world after \<^verbatim>\<open>get_nowait\<close> has taken the oldest message of the queue \<open>rq\<close>, and the
  world after \<^verbatim>\<open>task_done\<close> on that queue.
\<close>

definition popped :: "ref \<Rightarrow> world \<Rightarrow> world" where
  "popped rq w =
     w\<lparr>event_queues := (event_queues w)
          (rq := (event_queues w rq)\<lparr>items := tl (items (event_queues w rq))\<rparr>)\<rparr>"

definition marked :: "ref \<Rightarrow> world \<Rightarrow> world" where
  "marked rq w =
     w\<lparr>event_queues := (event_queues w)(rq := queue_task_done (event_queues w rq))\<rparr>"

text \<open>
  What a tick leaves as it is: the references held by the interface objects, the counters,
  the command queues, the store, the log, and whether \<^verbatim>\<open>notify2\<close> can be used.
\<close>

definition kept :: "GlibT \<Rightarrow> world \<Rightarrow> GlibT \<Rightarrow> world \<Rightarrow> bool" where
  "kept g w g' w' \<longleftrightarrow>
       (receive_queue g' = receive_queue g \<and> send_queue g' = send_queue g \<and>
        notifications g' = notifications g \<and>
        Control.queue (control_if g') = Control.queue (control_if g) \<and>
        Control.id_counter (control_if g') = Control.id_counter (control_if g) \<and>
        Control.server_list (control_if g') = Control.server_list (control_if g) \<and>
        Devices.queue (device_if g') = Devices.queue (device_if g) \<and>
        Devices.id_counter (device_if g') = Devices.id_counter (device_if g) \<and>
        counters w' = counters w \<and> command_queues w' = command_queues w \<and>
        pan_store w' = pan_store w \<and> log_errors w' = log_errors w \<and>
        initted (notify2 w') = initted (notify2 w) \<and>
        server_caps (notify2 w') = server_caps (notify2 w))"

text \<open>
  The command message of each operation, after the table of operations of the spec, and
  the counter an operation reads. \<open>issue r q m\<close> is one read of the counter \<open>r\<close> followed
  by \<^verbatim>\<open>put\<close> of \<open>m\<close> on the queue \<open>q\<close>.
\<close>

fun command_of :: "operation \<Rightarrow> int \<Rightarrow> command" where
  "command_of (ExportKeys_op u f p) i = ExportKeysMessage i u f p"
| "command_of (ImportKeys_op u f p) i = ImportKeysMessage i u f p"
| "command_of (SendAnyways_op u r) i = SendAnywaysMessage i u r"
| "command_of (CancelSending_op u r) i = CancelSendingMessage i u r"
| "command_of (Verify_op u x d) i = DeviceVerifyMessage i u x d"
| "command_of (Unverify_op u x d) i = DeviceUnverifyMessage i u x d"
| "command_of (Blacklist_op u x d) i = DeviceBlacklistMessage i u x d"
| "command_of (Unblacklist_op u x d) i = DeviceUnblacklistMessage i u x d"
| "command_of (StartKeyVerification_op u x d) i = StartSasMessage i u x d"
| "command_of (CancelKeyVerification_op u x d) i = CancelSasMessage i u x d"
| "command_of (AcceptKeyVerification_op u x d) i = AcceptSasMessage i u x d"
| "command_of (ConfirmKeyVerification_op u x d) i = ConfirmSasMessage i u x d"

fun counter_of :: "operation \<Rightarrow> GlibT \<Rightarrow> ref" where
  "counter_of (ExportKeys_op u f p) self = Control.id_counter (control_if self)"
| "counter_of (ImportKeys_op u f p) self = Control.id_counter (control_if self)"
| "counter_of (SendAnyways_op u r) self = Control.id_counter (control_if self)"
| "counter_of (CancelSending_op u r) self = Control.id_counter (control_if self)"
| "counter_of _ self = Devices.id_counter (device_if self)"

definition issue :: "ref \<Rightarrow> ref \<Rightarrow> command \<Rightarrow> world \<Rightarrow> world" where
  "issue r q m w =
     put q m (w\<lparr>counters := (counters w)
                  (r := (counters w r)\<lparr>u_message_id := u_message_id (counters w r) + 1\<rparr>)\<rparr>)"

text \<open>
  The wiring that \<^verbatim>\<open>__attrs_post_init__\<close> sets up: both interfaces hold one counter and
  the send queue. \<open>issued\<close> is the value of that counter, \<open>sent\<close> the contents of the
  send queue, \<open>ids_from b n\<close> the ids \<open>b, \<dots>, b + n - 1\<close>.
\<close>

definition wired :: "GlibT \<Rightarrow> bool" where
  "wired g \<longleftrightarrow>
     Control.id_counter (control_if g) = Devices.id_counter (device_if g) \<and>
     Control.queue (control_if g) = send_queue g \<and>
     Devices.queue (device_if g) = send_queue g"

definition issued :: "GlibT \<Rightarrow> world \<Rightarrow> int" where
  "issued g w = u_message_id (counters w (Control.id_counter (control_if g)))"

definition sent :: "GlibT \<Rightarrow> world \<Rightarrow> command list" where
  "sent g w = items (command_queues w (send_queue g))"

definition ids_from :: "int \<Rightarrow> nat \<Rightarrow> int list" where
  "ids_from b n = map (\<lambda>k. b + int k) [0..<n]"

text \<open>
  From \<open>(g, w)\<close> to \<open>(g', w')\<close> the wiring is kept, the commands \<open>new\<close> were put on the
  send queue, they carry the next ids in order, the counter has moved by their number, and
  the ids \<open>ids\<close> returned to callers are among them, in increasing order.
\<close>

definition advance :: "GlibT \<Rightarrow> world \<Rightarrow> int list \<Rightarrow> GlibT \<Rightarrow> world \<Rightarrow> bool" where
  "advance g w ids g' w' \<longleftrightarrow>
     wired g' \<and> send_queue g' = send_queue g \<and>
     Control.id_counter (control_if g') = Control.id_counter (control_if g) \<and>
     (\<exists>new. sent g' w' = sent g w @ new \<and>
            map message_id new = ids_from (issued g w) (length new) \<and>
            issued g' w' = issued g w + int (length new) \<and>
            set ids \<subseteq> set (map message_id new) \<and>
            sorted_wrt (<) ids)"

text \<open>Where notifications are enabled, \<^verbatim>\<open>notify2\<close> can be used.\<close>

definition notify_ok :: "GlibT \<Rightarrow> world \<Rightarrow> bool" where
  "notify_ok g w \<longleftrightarrow> (notifications g \<longrightarrow> ready (notify2 w))"

text \<open>
  The snapshot of the users that the store gives for the configured servers: the
  dictionary from each server name to \<^verbatim>\<open>load_users\<close> of that name. \<open>cached g sl\<close>: the
  users cache of \<open>g\<close> is for the servers \<open>sl\<close> and has no other key.
\<close>

definition users_snapshot :: "PanStore \<Rightarrow> server list \<Rightarrow> (string \<rightharpoonup> (string \<times> string) list)" where
  "users_snapshot st sl = map_of (map (\<lambda>s. (name s, load_users st (name s))) sl)"

definition cached :: "GlibT \<Rightarrow> server list \<Rightarrow> bool" where
  "cached g sl \<longleftrightarrow>
     Control.server_list (control_if g) = sl \<and>
     dom (Control.users (control_if g)) \<subseteq> name ` set sl"

text \<open>
  The outward signal that the spec gives for each kind of event (none for the two update
  messages and for a message of no known kind), and the kinds for which a notification
  is rendered when notifications are enabled.
\<close>

fun signal_of :: "event \<Rightarrow> signal list" where
  "signal_of (UnverifiedDevicesSignal u r d) = [UnverifiedDevices u r d]"
| "signal_of (InviteSasSignal u x d t) = [VerificationInvite u x d t]"
| "signal_of (ShowSasSignal u x d t e) = [VerificationString u x d t e]"
| "signal_of (SasDoneSignal u x d t) = [VerificationDone u x d t]"
| "signal_of (DaemonResponse i u c m) = [Response i u [(''code'', c), (''message'', m)]]"
| "signal_of m = []"

fun notifying :: "event \<Rightarrow> bool" where
  "notifying (UnverifiedDevicesSignal u r d) = True"
| "notifying (InviteSasSignal u x d t) = True"
| "notifying (ShowSasSignal u x d t e) = True"
| "notifying (SasDoneSignal u x d t) = True"
| "notifying m = False"

text \<open>
  \<open>processed evs g w g' w'\<close>: the state \<open>(g', w')\<close> is \<open>(g, w)\<close> after exactly the events
  \<open>evs\<close> were processed, in order. Their signals were emitted, and no other; the users
  cache was rebuilt from the store if an \<^verbatim>\<open>UpdateUsersMessage\<close> is among them and is as it
  was otherwise, likewise the device cache; one notification was shown for each
  notifying event if notifications are enabled, none otherwise; as many messages are
  marked as done; and the rest is as it was.
\<close>

definition processed :: "event list \<Rightarrow> GlibT \<Rightarrow> world \<Rightarrow> GlibT \<Rightarrow> world \<Rightarrow> bool" where
  "processed evs g w g' w' \<longleftrightarrow>
     signals w' = signals w @ concat (map signal_of evs) \<and>
     Control.users (control_if g') =
       (if UpdateUsersMessage \<in> set evs
        then Control.users (control_if g) ++
               users_snapshot (pan_store w) (Control.server_list (control_if g))
        else Control.users (control_if g)) \<and>
     device_list (device_if g') =
       (if UpdateDevicesMessage \<in> set evs then Some (load_all_devices (pan_store w))
        else device_list (device_if g)) \<and>
     length (shown (notify2 w')) =
       length (shown (notify2 w)) +
       (if notifications g then length (filter notifying evs) else 0) \<and>
     tasks_done (event_queues w' (receive_queue g)) =
       tasks_done (event_queues w (receive_queue g)) + length evs \<and>
     kept g w g' w'"

text \<open>
  The bridge of the spec with notifications off, as a machine of its own: the inbound
  queue and the number of events handled, the outbound queue and the next correlation
  id, the two caches, the signals emitted, the store and the configured servers. An
  operation puts its command with the next id and returns that id; a tick handles the
  oldest event, if any: it emits the signal of its kind, an \<^verbatim>\<open>UpdateUsers\<close> replaces the
  users cache by the snapshot of the store and an \<^verbatim>\<open>UpdateDevices\<close> the device cache by
  the devices of the store; no notification is on display, so none can be triggered.
\<close>

record bridge =
  inbound :: "event list"
  handled :: nat
  outbound :: "command list"
  next_id :: int
  users_cache :: "string \<rightharpoonup> (string \<times> string) list"
  devices_cache :: "(string \<times> device_store) list option"
  emitted :: "signal list"
  storage :: PanStore
  servers :: "server list"

fun bridge_step :: "action \<Rightarrow> bridge \<Rightarrow> int list \<times> bridge" where
  "bridge_step (Call op) b =
     ([next_id b],
      b\<lparr>outbound := outbound b @ [command_of op (next_id b)], next_id := next_id b + 1\<rparr>)"
| "bridge_step Tick b =
     (case inbound b of
        [] \<Rightarrow> ([], b)
      | m # rest \<Rightarrow>
          ([], b\<lparr>inbound := rest, handled := Suc (handled b),
                 emitted := emitted b @ signal_of m,
                 users_cache := (if m = UpdateUsersMessage
                                 then users_snapshot (storage b) (servers b)
                                 else users_cache b),
                 devices_cache := (if m = UpdateDevicesMessage
                                   then Some (load_all_devices (storage b))
                                   else devices_cache b)\<rparr>))"
| "bridge_step (Activate n key) b = ([], b)"
| "bridge_step (DaemonPut m) b = ([], b\<lparr>inbound := inbound b @ [m]\<rparr>)"
| "bridge_step (DaemonStore s) b = ([], b\<lparr>storage := s\<rparr>)"

fun bridge_exec :: "action list \<Rightarrow> bridge \<Rightarrow> int list \<times> bridge" where
  "bridge_exec [] b = ([], b)"
| "bridge_exec (a # as) b =
     (let (ids, b1) = bridge_step a b;
          (ids', b2) = bridge_exec as b1
      in (ids @ ids', b2))"

text \<open>The bridge that a state of the interface shows.\<close>

definition view :: "GlibT \<Rightarrow> world \<Rightarrow> bridge" where
  "view g w =
     \<lparr>inbound = items (event_queues w (receive_queue g)),
      handled = tasks_done (event_queues w (receive_queue g)),
      outbound = items (command_queues w (send_queue g)),
      next_id = u_message_id (counters w (Control.id_counter (control_if g))),
      users_cache = Control.users (control_if g),
      devices_cache = device_list (device_if g),
      emitted = signals w,
      storage = pan_store w,
      servers = Control.server_list (control_if g)\<rparr>"

text \<open>The seven kinds of message that \<^verbatim>\<open>message_callback\<close> tests for.\<close>

fun recognized :: "event \<Rightarrow> bool" where
  "recognized (OtherObject cls) = False"
| "recognized m = True"

subsection \<open>A concrete installation\<close>

text \<open>
  One server, one account with one known user and device, a notification server that
  supports actions, empty queues. The send queue is the object 1, the receive queue the
  object 0. \<open>ex_boot\<close> is the interface after construction and \<^verbatim>\<open>run\<close>; the other
  examples are what the main loop makes of it.
\<close>

definition ex_store :: PanStore where
  "ex_store =
     \<lparr>load_users = (\<lambda>s. if s = ''example'' then [(''alice'', ''ALICEDEV'')] else []),
      load_all_users = [(''alice'', ''ALICEDEV'')],
      load_all_devices =
        [(''alice'',
          [(''bob'',
            [(''BOBDEV'', [(''user_id'', ''bob''), (''device_id'', ''BOBDEV'')])])])]\<rparr>"

definition ex_world :: world where
  "ex_world =
     \<lparr>counters = (\<lambda>r. IdCounter_init), next_ref = 0,
      command_queues = (\<lambda>r. \<lparr>items = [], tasks_done = 0\<rparr>),
      event_queues = (\<lambda>r. \<lparr>items = [], tasks_done = 0\<rparr>),
      pan_store = ex_store,
      notify2 = \<lparr>server_caps = Some [''body'', ''actions''], initted = False,
                  caps_queries = 0, shown = []\<rparr>,
      signals = [], log_errors = []\<rparr>"

definition ex_servers :: "server list" where
  "ex_servers = [\<lparr>name = ''example''\<rparr>]"

definition ex_config :: PanConfig where
  "ex_config = \<lparr>PanConfig.notifications = True\<rparr>"

definition ex_boot :: "GlibT \<times> world" where
  "ex_boot = projr (start 0 1 ''/data'' ex_servers ex_config ex_world)"

definition ex_unverified :: event where
  "ex_unverified = UnverifiedDevicesSignal ''alice'' ''!r:example'' ''Room''"

definition ex_acts :: "action list" where
  "ex_acts = [Call (ExportKeys_op ''alice'' ''/tmp/k.txt'' ''pw''),
              DaemonPut ex_unverified,
              Tick,
              Call (Verify_op ''alice'' ''bob'' ''BOBDEV'')]"

definition ex_run :: "int list \<times> GlibT \<times> world" where
  "ex_run = projr (exec ex_acts ex_boot)"

definition ex_store2 :: PanStore where
  "ex_store2 =
     \<lparr>load_users = (\<lambda>s. if s = ''example'' then [(''carol'', ''CAROLDEV'')] else []),
      load_all_users = [(''carol'', ''CAROLDEV'')],
      load_all_devices = []\<rparr>"

definition ex_update :: "int list \<times> GlibT \<times> world" where
  "ex_update =
     projr (exec [Tick, DaemonStore ex_store2, DaemonPut UpdateUsersMessage] ex_boot)"

definition ex_reply :: "int list \<times> GlibT \<times> world" where
  "ex_reply =
     projr (exec [Call (ExportKeys_op ''alice'' ''/tmp/k.txt'' ''pw''),
                  DaemonPut (DaemonResponse 0 ''alice'' ''0'' ''ok''),
                  DaemonPut UpdateDevicesMessage] ex_boot)"

definition ex_other :: "int list \<times> GlibT \<times> world" where
  "ex_other =
     projr (exec [DaemonPut (OtherObject ''KeyRequest''), DaemonPut UpdateUsersMessage] ex_boot)"


definition ex_rendered :: world where
  "ex_rendered = projr (unverified_notification (fst ex_boot) ex_unverified (snd ex_boot))"

definition ex_twice :: "int list \<times> GlibT \<times> world" where
  "ex_twice =
     projr (exec [DaemonPut ex_unverified, Tick, DaemonPut ex_unverified, Tick] ex_boot)"

definition ex_no_server :: world where
  "ex_no_server =
     ex_world\<lparr>notify2 := \<lparr>server_caps = None, initted = False, caps_queries = 0, shown = []\<rparr>\<rparr>"


definition ex_no_boot :: "GlibT \<times> world" where
  "ex_no_boot = projr (start 0 1 ''/data'' ex_servers ex_config ex_no_server)"

definition ex_quiet_acts :: "action list" where
  "ex_quiet_acts = [DaemonPut ex_unverified, Tick,
                    Call (ExportKeys_op ''alice'' ''/tmp/k.txt'' ''pw'')]"

definition ex_quiet :: "int list \<times> GlibT \<times> world" where
  "ex_quiet = projr (exec ex_quiet_acts ex_no_boot)"

section \<open>Lemmas\<close>

lemma message_ids_from:
  "message_ids n c = (map (\<lambda>k. u_message_id c + int k) [0..<n], c\<lparr>u_message_id := u_message_id c + int n\<rparr>)"
proof (induction n arbitrary: c)
  case 0
  then show ?case by simp
next
  case (Suc n)
  have "map (\<lambda>k. u_message_id c + int k) [0..<Suc n] =
        u_message_id c # map (\<lambda>k. u_message_id c + 1 + int k) [0..<n]"
    by (simp add: upt_conv_Cons map_Suc_upt [symmetric] del: upt_Suc)
  then show ?case
    using Suc.IH [of "c\<lparr>u_message_id := u_message_id c + 1\<rparr>"]
    by (simp add: IdCounter_message_id_def Let_def add.assoc)
qed

lemma update_users_fold_fields:
  "Control.server_list (fold (\<lambda>server c. c\<lparr>Control.users := (Control.users c)(name server \<mapsto> f (name server))\<rparr>) sl c) = Control.server_list c \<and>
   Control.queue (fold (\<lambda>server c. c\<lparr>Control.users := (Control.users c)(name server \<mapsto> f (name server))\<rparr>) sl c) = Control.queue c \<and>
   Control.id_counter (fold (\<lambda>server c. c\<lparr>Control.users := (Control.users c)(name server \<mapsto> f (name server))\<rparr>) sl c) = Control.id_counter c"
  by (induction sl arbitrary: c) simp_all

lemma update_users_fold_users:
  "Control.users (fold (\<lambda>server c. c\<lparr>Control.users := (Control.users c)(name server \<mapsto> f (name server))\<rparr>) sl c) =
   (\<lambda>n. if n \<in> name ` set sl then Some (f n) else Control.users c n)"
  by (induction sl arbitrary: c) (auto simp: fun_eq_iff)

lemma update_users_fields [simp]:
  "Control.server_list (update_users c w) = Control.server_list c"
  "Control.queue (update_users c w) = Control.queue c"
  "Control.id_counter (update_users c w) = Control.id_counter c"
  unfolding update_users_def using update_users_fold_fields by blast+

lemma update_users_users:
  "Control.users (update_users c w) =
   (\<lambda>n. if n \<in> name ` set (Control.server_list c) then Some (load_users (pan_store w) n) else Control.users c n)"
  unfolding update_users_def by (rule update_users_fold_users)

lemma update_devices_fields [simp]:
  "Devices.queue (update_devices d w) = Devices.queue d"
  "Devices.id_counter (update_devices d w) = Devices.id_counter d"
  "device_list (update_devices d w) = Some (load_all_devices (pan_store w))"
  by (simp_all add: update_devices_def)

lemma unverified_notification_frame:
  assumes "unverified_notification g ev w = Inr w'"
  shows "\<exists>x. w' = w\<lparr>notify2 := (notify2 w)\<lparr>caps_queries := Suc (caps_queries (notify2 w)),
                                          shown := shown (notify2 w) @ [x]\<rparr>\<rparr>"
  using assms
  by (cases ev)
     (auto simp: get_server_caps_def Notification_show_def Let_def
           split: if_splits option.splits sum.splits)

lemma sas_invite_notification_frame:
  assumes "sas_invite_notification g ev w = Inr w'"
  shows "\<exists>x. w' = w\<lparr>notify2 := (notify2 w)\<lparr>caps_queries := Suc (caps_queries (notify2 w)),
                                          shown := shown (notify2 w) @ [x]\<rparr>\<rparr>"
  using assms
  by (cases ev)
     (auto simp: get_server_caps_def Notification_show_def Let_def
           split: if_splits option.splits sum.splits)

lemma sas_show_notification_frame:
  assumes "sas_show_notification g ev w = Inr w'"
  shows "\<exists>x. w' = w\<lparr>notify2 := (notify2 w)\<lparr>caps_queries := Suc (caps_queries (notify2 w)),
                                          shown := shown (notify2 w) @ [x]\<rparr>\<rparr>"
  using assms
  by (cases ev)
     (auto simp: get_server_caps_def Notification_show_def Let_def
           split: if_splits option.splits sum.splits)

lemma sas_done_notification_frame:
  assumes "sas_done_notification g ev w = Inr w'"
  shows "\<exists>x. w' = w\<lparr>notify2 := (notify2 w)\<lparr>shown := shown (notify2 w) @ [x]\<rparr>\<rparr>"
  using assms
  by (cases ev)
     (auto simp: Notification_show_def Let_def
           split: if_splits option.splits sum.splits)

lemma unverified_notification_ok:
  assumes "ready (notify2 w)"
  shows "\<exists>w'. unverified_notification g (UnverifiedDevicesSignal u r d) w = Inr w'"
  using assms
  by (auto simp: ready_def get_server_caps_def Notification_show_def Let_def)

lemma sas_invite_notification_ok:
  assumes "ready (notify2 w)"
  shows "\<exists>w'. sas_invite_notification g (InviteSasSignal u x d t) w = Inr w'"
  using assms
  by (auto simp: ready_def get_server_caps_def Notification_show_def Let_def)

lemma sas_show_notification_ok:
  assumes "ready (notify2 w)"
  shows "\<exists>w'. sas_show_notification g (ShowSasSignal u x d t e) w = Inr w'"
  using assms
  by (auto simp: ready_def get_server_caps_def Notification_show_def Let_def)

lemma sas_done_notification_ok:
  assumes "ready (notify2 w)"
  shows "\<exists>w'. sas_done_notification g (SasDoneSignal u x d t) w = Inr w'"
  using assms
  by (auto simp: ready_def get_server_caps_def Notification_show_def Let_def)

lemma message_callback_empty:
  assumes "items (event_queues w (receive_queue g)) = []"
  shows "message_callback g w = Inr (True, g, w)"
  using assms by (simp add: message_callback_def queue_get_nowait_def)

lemma message_callback_DaemonResponse:
  assumes "items (event_queues w (receive_queue g)) = DaemonResponse i u c m # rest"
  shows "message_callback g w =
         Inr (True, g, marked (receive_queue g)
                         (emit (Response i u [(''code'', c), (''message'', m)])
                            (popped (receive_queue g) w)))"
  using assms
  by (simp add: message_callback_def queue_get_nowait_def popped_def marked_def emit_def Let_def)

lemma message_callback_OtherObject:
  assumes "items (event_queues w (receive_queue g)) = OtherObject cls # rest"
  shows "message_callback g w = Inr (True, g, marked (receive_queue g) (popped (receive_queue g) w))"
  using assms
  by (simp add: message_callback_def queue_get_nowait_def popped_def marked_def Let_def)

lemma message_callback_UpdateUsers:
  assumes "items (event_queues w (receive_queue g)) = UpdateUsersMessage # rest"
  shows "message_callback g w =
         Inr (True, g\<lparr>control_if := update_users (control_if g) (popped (receive_queue g) w)\<rparr>,
              marked (receive_queue g) (popped (receive_queue g) w))"
  using assms
  by (simp add: message_callback_def queue_get_nowait_def popped_def marked_def Let_def)

lemma message_callback_UpdateDevices:
  assumes "items (event_queues w (receive_queue g)) = UpdateDevicesMessage # rest"
  shows "message_callback g w =
         Inr (True, g\<lparr>device_if := update_devices (device_if g) (popped (receive_queue g) w)\<rparr>,
              marked (receive_queue g) (popped (receive_queue g) w))"
  using assms
  by (simp add: message_callback_def queue_get_nowait_def popped_def marked_def Let_def)

lemma message_callback_kept:
  assumes "message_callback g w = Inr (b, g', w')"
  shows "b \<and> kept g w g' w'"
proof (cases "items (event_queues w (receive_queue g))")
  case Nil
  then show ?thesis using assms by (simp add: message_callback_empty kept_def)
next
  case (Cons m rest)
  show ?thesis
  proof (cases m)
    case UpdateDevicesMessage
    then show ?thesis using assms Cons
      by (auto simp: message_callback_UpdateDevices kept_def popped_def marked_def)
  next
    case UpdateUsersMessage
    then show ?thesis using assms Cons
      by (auto simp: message_callback_UpdateUsers kept_def popped_def marked_def)
  next
    case (UnverifiedDevicesSignal u r d)
    then show ?thesis using assms Cons
      by (auto simp: message_callback_def queue_get_nowait_def kept_def emit_def Let_def
               simp del: unverified_notification.simps
               split: if_splits sum.splits
               dest!: unverified_notification_frame)
  next
    case (InviteSasSignal u x d t)
    then show ?thesis using assms Cons
      by (auto simp: message_callback_def queue_get_nowait_def kept_def emit_def Let_def
               simp del: sas_invite_notification.simps
               split: if_splits sum.splits
               dest!: sas_invite_notification_frame)
  next
    case (ShowSasSignal u x d t e)
    then show ?thesis using assms Cons
      by (auto simp: message_callback_def queue_get_nowait_def kept_def emit_def Let_def
               simp del: sas_show_notification.simps
               split: if_splits sum.splits
               dest!: sas_show_notification_frame)
  next
    case (SasDoneSignal u x d t)
    then show ?thesis using assms Cons
      by (auto simp: message_callback_def queue_get_nowait_def kept_def emit_def Let_def
               simp del: sas_done_notification.simps
               split: if_splits sum.splits
               dest!: sas_done_notification_frame)
  next
    case (DaemonResponse i u c msg)
    then show ?thesis using assms Cons
      by (auto simp: message_callback_DaemonResponse kept_def popped_def marked_def emit_def)
  next
    case (OtherObject cls)
    then show ?thesis using assms Cons
      by (auto simp: message_callback_OtherObject kept_def popped_def marked_def)
  qed
qed

lemma message_id_command_of [simp]: "message_id (command_of op i) = i"
  by (cases op) simp_all

lemmas op_defs =
  ExportKeys_def ImportKeys_def SendAnyways_def CancelSending_def Verify_def Unverify_def
  Blacklist_def Unblacklist_def StartKeyVerification_def CancelKeyVerification_def
  AcceptKeyVerification_def ConfirmKeyVerification_def
  Control_message_id_def Devices_message_id_def IdCounter_message_id_def

lemma perform_eq:
  "perform op g w =
     (u_message_id (counters w (counter_of op g)),
      issue (counter_of op g) (queue_of op g)
        (command_of op (u_message_id (counters w (counter_of op g)))) w)"
  by (cases op) (simp_all add: op_defs issue_def Let_def)

lemma issue_fields [simp]:
  "counters (issue r q m w) =
     (counters w)(r := (counters w r)\<lparr>u_message_id := u_message_id (counters w r) + 1\<rparr>)"
  "command_queues (issue r q m w) = (command_queues w)(q := queue_put (command_queues w q) m)"
  "event_queues (issue r q m w) = event_queues w"
  "pan_store (issue r q m w) = pan_store w"
  "notify2 (issue r q m w) = notify2 w"
  "signals (issue r q m w) = signals w"
  "log_errors (issue r q m w) = log_errors w"
  "next_ref (issue r q m w) = next_ref w"
  by (simp_all add: issue_def put_def)

lemma invoke_send:
  "invoke unverified_send_cb g (UnverifiedDevicesSignal u r d) w =
     Inr (issue (Control.id_counter (control_if g)) (Control.queue (control_if g))
            (SendAnywaysMessage (u_message_id (counters w (Control.id_counter (control_if g)))) u r) w)"
  using perform_eq [of "SendAnyways_op u r" g w] by simp

lemma ids_from_0 [simp]: "ids_from b 0 = []"
  by (simp add: ids_from_def)

lemma ids_from_1: "ids_from b (Suc 0) = [b]"
  by (simp add: ids_from_def)

lemma ids_from_add: "ids_from b (m + n) = ids_from b m @ ids_from (b + int m) n"
proof -
  have "[0..<m + n] = [0..<m] @ [m..<m + n]"
    using upt_add_eq_append [of 0 m n] by simp
  moreover have "[m..<m + n] = map (\<lambda>k. k + m) [0..<n]"
    by (simp add: map_add_upt add.commute)
  ultimately show ?thesis
    by (simp add: ids_from_def comp_def add.assoc add.commute)
qed

lemma set_ids_from: "set (ids_from b n) = {i. b \<le> i \<and> i < b + int n}"
proof -
  have "\<And>i. b \<le> i \<Longrightarrow> i < b + int n \<Longrightarrow> i \<in> (\<lambda>k. b + int k) ` {0..<n}"
  proof -
    fix i assume "b \<le> i" "i < b + int n"
    then have "nat (i - b) \<in> {0..<n}" "i = b + int (nat (i - b))" by auto
    then show "i \<in> (\<lambda>k. b + int k) ` {0..<n}" by blast
  qed
  then show ?thesis by (auto simp: ids_from_def)
qed

lemma sorted_ids_from: "sorted_wrt (<) (ids_from b n)"
  unfolding ids_from_def sorted_wrt_map
  by (rule sorted_wrt_mono_rel [OF _ sorted_wrt_upt]) simp

lemma advance_idle:
  assumes "wired g'" "send_queue g' = send_queue g"
    "Control.id_counter (control_if g') = Control.id_counter (control_if g)"
    "counters w' = counters w" "command_queues w' = command_queues w"
  shows "advance g w [] g' w'"
  using assms by (simp add: advance_def sent_def issued_def)

lemma advance_issue:
  assumes "wired g" "ids = [] \<or> ids = [issued g w]"
  shows "advance g w ids
           g (issue (Control.id_counter (control_if g)) (send_queue g) (command_of op (issued g w)) w)"
proof -
  let ?m = "command_of op (issued g w)"
  let ?w' = "issue (Control.id_counter (control_if g)) (send_queue g) ?m w"
  have "sent g ?w' = sent g w @ [?m]"
    by (simp add: sent_def queue_put_def)
  moreover have "map message_id [?m] = ids_from (issued g w) (length [?m])"
    by (simp add: ids_from_1)
  moreover have "issued g ?w' = issued g w + int (length [?m])"
    by (simp add: issued_def)
  moreover have "set ids \<subseteq> set (map message_id [?m])" "sorted_wrt (<) ids"
    using assms(2) by auto
  ultimately show ?thesis
    using assms(1) unfolding advance_def by blast
qed

lemma advance_trans:
  assumes "advance g w ids1 g1 w1" "advance g1 w1 ids2 g2 w2"
  shows "advance g w (ids1 @ ids2) g2 w2"
proof -
  from assms(1) obtain new1 where 1:
    "wired g1" "send_queue g1 = send_queue g"
    "Control.id_counter (control_if g1) = Control.id_counter (control_if g)"
    "sent g1 w1 = sent g w @ new1"
    "map message_id new1 = ids_from (issued g w) (length new1)"
    "issued g1 w1 = issued g w + int (length new1)"
    "set ids1 \<subseteq> set (map message_id new1)" "sorted_wrt (<) ids1"
    unfolding advance_def by blast
  from assms(2) obtain new2 where 2:
    "wired g2" "send_queue g2 = send_queue g1"
    "Control.id_counter (control_if g2) = Control.id_counter (control_if g1)"
    "sent g2 w2 = sent g1 w1 @ new2"
    "map message_id new2 = ids_from (issued g1 w1) (length new2)"
    "issued g2 w2 = issued g1 w1 + int (length new2)"
    "set ids2 \<subseteq> set (map message_id new2)" "sorted_wrt (<) ids2"
    unfolding advance_def by blast
  have a: "sent g2 w2 = sent g w @ (new1 @ new2)"
    using 1(4) 2(4) by simp
  have b: "map message_id (new1 @ new2) = ids_from (issued g w) (length (new1 @ new2))"
    using 1(5) 2(5) 1(6) by (simp add: ids_from_add)
  have c: "issued g2 w2 = issued g w + int (length (new1 @ new2))"
    using 1(6) 2(6) by simp
  have d: "set (ids1 @ ids2) \<subseteq> set (map message_id (new1 @ new2))"
    using 1(7) 2(7) by auto
  have "\<forall>x\<in>set ids1. \<forall>y\<in>set ids2. x < y"
  proof (intro ballI)
    fix x y assume "x \<in> set ids1" "y \<in> set ids2"
    then have "x \<in> set (ids_from (issued g w) (length new1))"
      "y \<in> set (ids_from (issued g1 w1) (length new2))"
      using 1(5,7) 2(5,7) by auto
    then show "x < y" using 1(6) by (simp add: set_ids_from)
  qed
  then have e: "sorted_wrt (<) (ids1 @ ids2)"
    using 1(8) 2(8) by (simp add: sorted_wrt_append)
  have "\<exists>new. sent g2 w2 = sent g w @ new \<and>
            map message_id new = ids_from (issued g w) (length new) \<and>
            issued g2 w2 = issued g w + int (length new) \<and>
            set (ids1 @ ids2) \<subseteq> set (map message_id new) \<and>
            sorted_wrt (<) (ids1 @ ids2)"
    using a b c d e by blast
  then show ?thesis
    unfolding advance_def using 2(1) 1(2) 2(2) 1(3) 2(3) by simp
qed

lemma invoke_perform:
  assumes "invoke cb g ev w = Inr w1"
  shows "\<exists>op. w1 = snd (perform op g w)"
proof -
  have 1: "\<And>u r. \<exists>op. snd (SendAnyways (control_if g) u r w) = snd (perform op g w)"
    by (rule_tac x = "SendAnyways_op u r" in exI) simp
  have 2: "\<And>u r. \<exists>op. snd (CancelSending (control_if g) u r w) = snd (perform op g w)"
    by (rule_tac x = "CancelSending_op u r" in exI) simp
  have 3: "\<And>u x d. \<exists>op. snd (AcceptKeyVerification (device_if g) u x d w) = snd (perform op g w)"
    by (rule_tac x = "AcceptKeyVerification_op u x d" in exI) simp
  have 4: "\<And>u x d. \<exists>op. snd (CancelKeyVerification (device_if g) u x d w) = snd (perform op g w)"
    by (rule_tac x = "CancelKeyVerification_op u x d" in exI) simp
  have 5: "\<And>u x d. \<exists>op. snd (ConfirmKeyVerification (device_if g) u x d w) = snd (perform op g w)"
    by (rule_tac x = "ConfirmKeyVerification_op u x d" in exI) simp
  show ?thesis
    using assms by (cases cb; cases ev; simp; metis 1 2 3 4 5)
qed

lemma wired_ops:
  assumes "wired g"
  shows "counter_of op g = Control.id_counter (control_if g)" "queue_of op g = send_queue g"
  using assms by (cases op; simp add: wired_def)+

lemma perform_wired:
  assumes "wired g"
  shows "perform op g w =
         (issued g w,
          issue (Control.id_counter (control_if g)) (send_queue g) (command_of op (issued g w)) w)"
  using assms by (simp add: perform_eq wired_ops issued_def)

lemma kept_advance:
  assumes "wired g" "kept g w g' w'"
  shows "advance g w [] g' w'"
  using assms by (intro advance_idle) (simp_all add: kept_def wired_def)

lemma step_advance:
  assumes "wired g" "step a (g, w) = Inr (ids, g', w')"
  shows "advance g w ids g' w'"
proof (cases a)
  case (Call op)
  then have "ids = [issued g w]" "g' = g"
    "w' = issue (Control.id_counter (control_if g)) (send_queue g) (command_of op (issued g w)) w"
    using assms by (auto simp: perform_wired)
  then show ?thesis
    using advance_issue [of g ids w op] assms(1) by simp
next
  case Tick
  then obtain b where "message_callback g w = Inr (b, g', w')" "ids = []"
    using assms(2) by (auto split: sum.splits)
  then show ?thesis
    using message_callback_kept kept_advance assms(1) by blast
next
  case (Activate n key)
  show ?thesis
  proof (cases "n < length (shown (notify2 w))")
    case False
    then have "ids = []" "g' = g" "w' = w" using assms(2) Activate by auto
    then show ?thesis using assms(1) by (simp add: advance_idle)
  next
    case True
    show ?thesis
    proof (cases "find (\<lambda>a. fst a = key) (actions (shown (notify2 w) ! n))")
      case None
      then have "ids = []" "g' = g" "w' = w" using assms(2) Activate True by auto
      then show ?thesis using assms(1) by (simp add: advance_idle)
    next
      case (Some e)
      obtain k l cb ud where e: "e = (k, l, cb, ud)" by (metis surj_pair)
      then have r: "invoke cb g ud w = Inr w'" "ids = []" "g' = g"
        using assms(2) Activate True Some by (auto split: sum.splits)
      then obtain op where "w' = snd (perform op g w)"
        using invoke_perform by blast
      then show ?thesis
        using r advance_issue [of g "[]" w op] assms(1) by (simp add: perform_wired)
    qed
  qed
next
  case (DaemonPut m)
  then show ?thesis using assms by (auto intro!: advance_idle)
next
  case (DaemonStore s)
  then show ?thesis using assms by (auto intro!: advance_idle)
qed

lemma exec_advance:
  assumes "wired g" "exec as (g, w) = Inr (ids, g', w')"
  shows "advance g w ids g' w'"
  using assms
proof (induction as arbitrary: g w ids)
  case Nil
  then show ?case by (simp add: advance_idle)
next
  case (Cons a as)
  from Cons.prems(2) obtain ids1 g1 w1 ids2 where
    s: "step a (g, w) = Inr (ids1, g1, w1)" and
    e: "exec as (g1, w1) = Inr (ids2, g', w')" and i: "ids = ids1 @ ids2"
    by (auto split: sum.splits)
  have 1: "advance g w ids1 g1 w1"
    using step_advance [OF Cons.prems(1) s] .
  then have "wired g1" by (simp add: advance_def)
  then have "advance g1 w1 ids2 g' w'"
    using Cons.IH e by blast
  then show ?case using 1 i advance_trans by blast
qed

lemma popped_fields [simp]:
  "counters (popped rq w) = counters w" "command_queues (popped rq w) = command_queues w"
  "pan_store (popped rq w) = pan_store w" "notify2 (popped rq w) = notify2 w"
  "signals (popped rq w) = signals w" "log_errors (popped rq w) = log_errors w"
  "next_ref (popped rq w) = next_ref w"
  "event_queues (popped rq w) =
     (event_queues w)(rq := (event_queues w rq)\<lparr>items := tl (items (event_queues w rq))\<rparr>)"
  by (simp_all add: popped_def)

lemma marked_fields [simp]:
  "counters (marked rq w) = counters w" "command_queues (marked rq w) = command_queues w"
  "pan_store (marked rq w) = pan_store w" "notify2 (marked rq w) = notify2 w"
  "signals (marked rq w) = signals w" "log_errors (marked rq w) = log_errors w"
  "next_ref (marked rq w) = next_ref w"
  "event_queues (marked rq w) = (event_queues w)(rq := queue_task_done (event_queues w rq))"
  by (simp_all add: marked_def)

lemma emit_fields [simp]:
  "counters (emit x w) = counters w" "command_queues (emit x w) = command_queues w"
  "pan_store (emit x w) = pan_store w" "notify2 (emit x w) = notify2 w"
  "signals (emit x w) = signals w @ [x]" "log_errors (emit x w) = log_errors w"
  "next_ref (emit x w) = next_ref w" "event_queues (emit x w) = event_queues w"
  by (simp_all add: emit_def)

text \<open>The shape of every tick that takes a message: the message leaves the queue, a
  handler runs, the message is marked as done.\<close>

lemma message_callback_cons:
  assumes "items (event_queues w (receive_queue g)) = m # rest"
  shows "message_callback g w =
     (case
        (case m of
           UpdateDevicesMessage \<Rightarrow>
             Inr (g\<lparr>device_if := update_devices (device_if g) (popped (receive_queue g) w)\<rparr>,
                  popped (receive_queue g) w)
         | UpdateUsersMessage \<Rightarrow>
             Inr (g\<lparr>control_if := update_users (control_if g) (popped (receive_queue g) w)\<rparr>,
                  popped (receive_queue g) w)
         | UnverifiedDevicesSignal u r d \<Rightarrow>
             if notifications g
             then (case unverified_notification g m
                          (emit (UnverifiedDevices u r d) (popped (receive_queue g) w)) of
                     Inl e \<Rightarrow> Inl e | Inr w2 \<Rightarrow> Inr (g, w2))
             else Inr (g, emit (UnverifiedDevices u r d) (popped (receive_queue g) w))
         | InviteSasSignal u x d t \<Rightarrow>
             if notifications g
             then (case sas_invite_notification g m
                          (emit (VerificationInvite u x d t) (popped (receive_queue g) w)) of
                     Inl e \<Rightarrow> Inl e | Inr w2 \<Rightarrow> Inr (g, w2))
             else Inr (g, emit (VerificationInvite u x d t) (popped (receive_queue g) w))
         | ShowSasSignal u x d t e \<Rightarrow>
             if notifications g
             then (case sas_show_notification g m
                          (emit (VerificationString u x d t e) (popped (receive_queue g) w)) of
                     Inl e \<Rightarrow> Inl e | Inr w2 \<Rightarrow> Inr (g, w2))
             else Inr (g, emit (VerificationString u x d t e) (popped (receive_queue g) w))
         | SasDoneSignal u x d t \<Rightarrow>
             if notifications g
             then (case sas_done_notification g m
                          (emit (VerificationDone u x d t) (popped (receive_queue g) w)) of
                     Inl e \<Rightarrow> Inl e | Inr w2 \<Rightarrow> Inr (g, w2))
             else Inr (g, emit (VerificationDone u x d t) (popped (receive_queue g) w))
         | DaemonResponse i u c msg \<Rightarrow>
             Inr (g, emit (Response i u [(''code'', c), (''message'', msg)])
                       (popped (receive_queue g) w))
         | OtherObject cls \<Rightarrow> Inr (g, popped (receive_queue g) w))
      of
        Inl e \<Rightarrow> Inl e
      | Inr (g1, w3) \<Rightarrow> Inr (True, g1, marked (receive_queue g) w3))"
  using assms
  by (cases m)
     (auto simp add: message_callback_def queue_get_nowait_def popped_def marked_def Let_def
           simp del: unverified_notification.simps sas_invite_notification.simps
                sas_show_notification.simps sas_done_notification.simps
           split: sum.splits)

lemma notification_frames:
  "unverified_notification g ev w = Inr w' \<Longrightarrow>
     counters w' = counters w \<and> command_queues w' = command_queues w \<and>
     event_queues w' = event_queues w \<and> pan_store w' = pan_store w \<and>
     signals w' = signals w \<and> log_errors w' = log_errors w \<and>
     initted (notify2 w') = initted (notify2 w) \<and>
     server_caps (notify2 w') = server_caps (notify2 w)"
  "sas_invite_notification g ev w = Inr w' \<Longrightarrow>
     counters w' = counters w \<and> command_queues w' = command_queues w \<and>
     event_queues w' = event_queues w \<and> pan_store w' = pan_store w \<and>
     signals w' = signals w \<and> log_errors w' = log_errors w \<and>
     initted (notify2 w') = initted (notify2 w) \<and>
     server_caps (notify2 w') = server_caps (notify2 w)"
  "sas_show_notification g ev w = Inr w' \<Longrightarrow>
     counters w' = counters w \<and> command_queues w' = command_queues w \<and>
     event_queues w' = event_queues w \<and> pan_store w' = pan_store w \<and>
     signals w' = signals w \<and> log_errors w' = log_errors w \<and>
     initted (notify2 w') = initted (notify2 w) \<and>
     server_caps (notify2 w') = server_caps (notify2 w)"
  "sas_done_notification g ev w = Inr w' \<Longrightarrow>
     counters w' = counters w \<and> command_queues w' = command_queues w \<and>
     event_queues w' = event_queues w \<and> pan_store w' = pan_store w \<and>
     signals w' = signals w \<and> log_errors w' = log_errors w \<and>
     initted (notify2 w') = initted (notify2 w) \<and>
     server_caps (notify2 w') = server_caps (notify2 w)"
  by (auto dest!: unverified_notification_frame sas_invite_notification_frame
                  sas_show_notification_frame sas_done_notification_frame)

text \<open>A tick on a non-empty queue, with usable notifications: it returns \<open>True\<close>, one
  message has left the queue and one more is marked as done.\<close>

lemma tick_cons:
  assumes "notify_ok g w" "items (event_queues w (receive_queue g)) = m # rest"
  shows "\<exists>g' w'. message_callback g w = Inr (True, g', w') \<and>
           items (event_queues w' (receive_queue g)) = rest \<and>
           tasks_done (event_queues w' (receive_queue g)) =
             Suc (tasks_done (event_queues w (receive_queue g)))"
proof -
  let ?rq = "receive_queue g"
  let ?p = "popped ?rq w"
  have p: "items (event_queues ?p ?rq) = rest"
    "tasks_done (event_queues ?p ?rq) = tasks_done (event_queues w ?rq)"
    using assms(2) by simp_all
  have fin: "\<And>g1 w3. event_queues w3 = event_queues ?p \<Longrightarrow>
      items (event_queues (marked ?rq w3) ?rq) = rest \<and>
      tasks_done (event_queues (marked ?rq w3) ?rq) = Suc (tasks_done (event_queues w ?rq))"
    using p by (simp add: queue_task_done_def)
  have r: "notifications g \<Longrightarrow> ready (notify2 w)"
    using assms(1) by (simp add: notify_ok_def)
  show ?thesis
  proof (cases m)
    case (UnverifiedDevicesSignal u r' d)
    show ?thesis
    proof (cases "notifications g")
      case True
      then obtain w2 where
        w2: "unverified_notification g m (emit (UnverifiedDevices u r' d) ?p) = Inr w2"
        using unverified_notification_ok [of "emit (UnverifiedDevices u r' d) ?p" g u r' d] r
          UnverifiedDevicesSignal by auto
      then have "event_queues w2 = event_queues ?p"
        using notification_frames(1) [OF w2] by simp
      then show ?thesis
        using fin w2 True UnverifiedDevicesSignal
        by (simp add: message_callback_cons [OF assms(2)])
    next
      case False
      then show ?thesis
        using fin [of "emit (UnverifiedDevices u r' d) ?p"] UnverifiedDevicesSignal
        by (simp add: message_callback_cons [OF assms(2)])
    qed
  next
    case (InviteSasSignal u x d t)
    show ?thesis
    proof (cases "notifications g")
      case True
      then obtain w2 where
        w2: "sas_invite_notification g m (emit (VerificationInvite u x d t) ?p) = Inr w2"
        using sas_invite_notification_ok [of "emit (VerificationInvite u x d t) ?p" g u x d t] r
          InviteSasSignal by auto
      then have "event_queues w2 = event_queues ?p"
        using notification_frames(2) [OF w2] by simp
      then show ?thesis
        using fin w2 True InviteSasSignal
        by (simp add: message_callback_cons [OF assms(2)])
    next
      case False
      then show ?thesis
        using fin [of "emit (VerificationInvite u x d t) ?p"] InviteSasSignal
        by (simp add: message_callback_cons [OF assms(2)])
    qed
  next
    case (ShowSasSignal u x d t e)
    show ?thesis
    proof (cases "notifications g")
      case True
      then obtain w2 where
        w2: "sas_show_notification g m (emit (VerificationString u x d t e) ?p) = Inr w2"
        using sas_show_notification_ok [of "emit (VerificationString u x d t e) ?p" g u x d t e] r
          ShowSasSignal by auto
      then have "event_queues w2 = event_queues ?p"
        using notification_frames(3) [OF w2] by simp
      then show ?thesis
        using fin w2 True ShowSasSignal
        by (simp add: message_callback_cons [OF assms(2)])
    next
      case False
      then show ?thesis
        using fin [of "emit (VerificationString u x d t e) ?p"] ShowSasSignal
        by (simp add: message_callback_cons [OF assms(2)])
    qed
  next
    case (SasDoneSignal u x d t)
    show ?thesis
    proof (cases "notifications g")
      case True
      then obtain w2 where
        w2: "sas_done_notification g m (emit (VerificationDone u x d t) ?p) = Inr w2"
        using sas_done_notification_ok [of "emit (VerificationDone u x d t) ?p" g u x d t] r
          SasDoneSignal by auto
      then have "event_queues w2 = event_queues ?p"
        using notification_frames(4) [OF w2] by simp
      then show ?thesis
        using fin w2 True SasDoneSignal
        by (simp add: message_callback_cons [OF assms(2)])
    next
      case False
      then show ?thesis
        using fin [of "emit (VerificationDone u x d t) ?p"] SasDoneSignal
        by (simp add: message_callback_cons [OF assms(2)])
    qed
  qed (use fin [of ?p] fin [of "emit _ ?p"] in
        \<open>simp_all add: message_callback_cons [OF assms(2)]\<close>)
qed

lemma tick_notify_ok:
  assumes "message_callback g w = Inr (b, g', w')" "notify_ok g w"
  shows "notify_ok g' w' \<and> receive_queue g' = receive_queue g"
  using message_callback_kept [OF assms(1)] assms(2)
  by (simp add: kept_def notify_ok_def ready_def)

lemma ticks_drain:
  assumes "notify_ok g w" "T \<le> length (items (event_queues w (receive_queue g)))"
  shows "\<exists>g' w'. exec (replicate T Tick) (g, w) = Inr ([], g', w') \<and>
           receive_queue g' = receive_queue g \<and>
           items (event_queues w' (receive_queue g)) =
             drop T (items (event_queues w (receive_queue g))) \<and>
           tasks_done (event_queues w' (receive_queue g)) =
             tasks_done (event_queues w (receive_queue g)) + T"
  using assms
proof (induction T arbitrary: g w)
  case 0
  then show ?case by simp
next
  case (Suc T)
  then obtain m rest where mr: "items (event_queues w (receive_queue g)) = m # rest"
    by (cases "items (event_queues w (receive_queue g))") auto
  from tick_cons [OF Suc.prems(1) mr] obtain g1 w1 where
    t: "message_callback g w = Inr (True, g1, w1)"
    and i: "items (event_queues w1 (receive_queue g)) = rest"
    and d: "tasks_done (event_queues w1 (receive_queue g)) =
            Suc (tasks_done (event_queues w (receive_queue g)))"
    by blast
  have ok: "notify_ok g1 w1" and rq: "receive_queue g1 = receive_queue g"
    using tick_notify_ok [OF t Suc.prems(1)] by simp_all
  have "T \<le> length (items (event_queues w1 (receive_queue g1)))"
    using Suc.prems(2) mr i rq by simp
  from Suc.IH [OF ok this] obtain g' w' where
    e: "exec (replicate T Tick) (g1, w1) = Inr ([], g', w')"
    and r: "receive_queue g' = receive_queue g1"
      "items (event_queues w' (receive_queue g1)) = drop T (items (event_queues w1 (receive_queue g1)))"
      "tasks_done (event_queues w' (receive_queue g1)) =
         tasks_done (event_queues w1 (receive_queue g1)) + T"
    by blast
  have "exec (replicate (Suc T) Tick) (g, w) = Inr ([], g', w')"
    using t e by simp
  then show ?case
    using r rq i d mr by simp
qed

lemma users_snapshot_eq:
  "users_snapshot st sl = (\<lambda>n. if n \<in> name ` set sl then Some (load_users st n) else None)"
  unfolding users_snapshot_def
  by (induction sl) (auto simp: fun_eq_iff)

lemma update_users_cached:
  assumes "dom (Control.users c) \<subseteq> name ` set (Control.server_list c)"
  shows "Control.users (update_users c w) = users_snapshot (pan_store w) (Control.server_list c)"
proof
  fix n
  show "Control.users (update_users c w) n = users_snapshot (pan_store w) (Control.server_list c) n"
    using assms by (auto simp: update_users_users users_snapshot_eq)
qed

lemma start_facts:
  assumes "start rq sq dd sl cfg w0 = Inr (g, w)"
  shows "wired g" "send_queue g = sq" "receive_queue g = rq" "issued g w = 0"
    "command_queues w = command_queues w0" "event_queues w = event_queues w0"
    "pan_store w = pan_store w0" "signals w = signals w0"
    "cached g sl"
    "Control.users (control_if g) = users_snapshot (pan_store w0) sl"
    "device_list (device_if g) = Some (load_all_devices (pan_store w0))"
    "shown (notify2 w) = shown (notify2 w0)"
    "caps_queries (notify2 w) = caps_queries (notify2 w0)"
    "server_caps (notify2 w) = server_caps (notify2 w0)"
    "notify_ok g w"
    "notifications g \<longleftrightarrow> PanConfig.notifications cfg \<and> server_caps (notify2 w0) \<noteq> None"
proof -
  define w1 where "w1 = snd (new_IdCounter w0)"
  define g0 where "g0 = fst (GlibT_init rq sq dd sl cfg w0)"
  have i: "GlibT_init rq sq dd sl cfg w0 = (g0, w1)"
    by (simp add: g0_def w1_def GlibT_init_def split_def Let_def)
  have w1: "counters w1 = (counters w0)(next_ref w0 := IdCounter_init)"
    "command_queues w1 = command_queues w0" "event_queues w1 = event_queues w0"
    "pan_store w1 = pan_store w0" "signals w1 = signals w0" "notify2 w1 = notify2 w0"
    "log_errors w1 = log_errors w0"
    by (simp_all add: w1_def new_IdCounter_def)
  have c: "control_if g0 = Control_init sq sl (next_ref w0) w1"
    "device_if g0 = Devices_init sq (next_ref w0) w1"
    "send_queue g0 = sq" "receive_queue g0 = rq" "config g0 = cfg" "\<not> notifications g0"
    by (simp_all add: g0_def GlibT_init_def new_IdCounter_def w1_def split_def Let_def)
  have ci: "Control.queue (control_if g0) = sq" "Control.id_counter (control_if g0) = next_ref w0"
    "Control.server_list (control_if g0) = sl"
    "Control.users (control_if g0) = users_snapshot (pan_store w0) sl"
    using update_users_cached [of "\<lparr>Control.server_list = sl, users = Map.empty, queue = sq,
                                    id_counter = next_ref w0\<rparr>" w1]
    by (simp_all add: c Control_init_def w1)
  have di: "Devices.queue (device_if g0) = sq" "Devices.id_counter (device_if g0) = next_ref w0"
    "device_list (device_if g0) = Some (load_all_devices (pan_store w0))"
    by (simp_all add: c Devices_init_def w1)
  have r: "run g0 w1 = Inr (g, w)"
    using assms i by (simp add: start_def)
  have g: "control_if g = control_if g0" "device_if g = device_if g0"
    "send_queue g = send_queue g0" "receive_queue g = receive_queue g0"
    "counters w = counters w1" "command_queues w = command_queues w1"
    "event_queues w = event_queues w1" "pan_store w = pan_store w1" "signals w = signals w1"
    "shown (notify2 w) = shown (notify2 w1)" "caps_queries (notify2 w) = caps_queries (notify2 w1)"
    "server_caps (notify2 w) = server_caps (notify2 w1)"
    "notifications g \<longrightarrow> initted (notify2 w) \<and> server_caps (notify2 w) \<noteq> None"
    "notifications g \<longleftrightarrow> PanConfig.notifications cfg \<and> server_caps (notify2 w0) \<noteq> None"
    using r c(5,6) w1(6)
    by (auto simp: run_def notify2_init_def Let_def split: if_splits sum.splits option.splits error.splits)
  show "wired g" by (simp add: wired_def g ci di c(3))
  show "send_queue g = sq" "receive_queue g = rq" by (simp_all add: g c(3,4))
  show "issued g w = 0" by (simp add: issued_def g ci w1 IdCounter_init_def)
  show "command_queues w = command_queues w0" "event_queues w = event_queues w0"
    "pan_store w = pan_store w0" "signals w = signals w0"
    by (simp_all add: g w1)
  show "Control.users (control_if g) = users_snapshot (pan_store w0) sl"
    by (simp add: g ci)
  then show "cached g sl"
    by (auto simp: cached_def g ci users_snapshot_eq split: if_splits)
  show "device_list (device_if g) = Some (load_all_devices (pan_store w0))"
    by (simp add: g di)
  show "shown (notify2 w) = shown (notify2 w0)" "caps_queries (notify2 w) = caps_queries (notify2 w0)"
    "server_caps (notify2 w) = server_caps (notify2 w0)"
    by (simp_all add: g w1)
  show "notify_ok g w" using g(13) by (simp add: notify_ok_def ready_def)
  show "notifications g \<longleftrightarrow> PanConfig.notifications cfg \<and> server_caps (notify2 w0) \<noteq> None"
    by (rule g(14))
qed

lemma tick_control:
  assumes "message_callback g w = Inr (b, g', w')"
  shows "control_if g' = control_if g \<or> (\<exists>x. control_if g' = update_users (control_if g) x)"
proof (cases "items (event_queues w (receive_queue g))")
  case Nil
  then show ?thesis using assms by (simp add: message_callback_empty)
next
  case (Cons m rest)
  show ?thesis
    using assms unfolding message_callback_cons [OF Cons]
    by (cases m) (auto split: sum.splits if_splits)
qed

lemma tick_cached:
  assumes "message_callback g w = Inr (b, g', w')" "cached g sl"
  shows "cached g' sl"
  using tick_control [OF assms(1)] assms(2)
  by (auto simp: cached_def update_users_users subset_iff dom_def split: if_splits)

lemma step_cached:
  assumes "step a (g, w) = Inr (ids, g', w')" "cached g sl"
  shows "cached g' sl"
proof (cases a)
  case Tick
  then obtain b where "message_callback g w = Inr (b, g', w')"
    using assms(1) by (auto split: sum.splits)
  then show ?thesis using tick_cached assms(2) by blast
next
  case (Call op)
  then have "g' = g" using assms(1) by (auto simp: split_def Let_def)
  then show ?thesis using assms(2) by simp
next
  case (Activate n key)
  then have "g' = g" using assms(1)
    by (auto split: if_splits option.splits sum.splits)
  then show ?thesis using assms(2) by simp
next
  case (DaemonPut m)
  then show ?thesis using assms by auto
next
  case (DaemonStore s)
  then show ?thesis using assms by auto
qed

lemma exec_cached:
  assumes "exec as (g, w) = Inr (ids, g', w')" "cached g sl"
  shows "cached g' sl"
  using assms
proof (induction as arbitrary: g w ids)
  case Nil
  then show ?case by simp
next
  case (Cons a as)
  from Cons.prems(1) obtain ids1 g1 w1 ids2 where
    s: "step a (g, w) = Inr (ids1, g1, w1)" and
    e: "exec as (g1, w1) = Inr (ids2, g', w')"
    by (auto split: sum.splits)
  show ?case
    using Cons.IH [OF e step_cached [OF s Cons.prems(2)]] .
qed

lemma update_users_map_add:
  "Control.users (update_users c w) =
     Control.users c ++ users_snapshot (pan_store w) (Control.server_list c)"
  by (auto simp: fun_eq_iff map_add_def update_users_users users_snapshot_eq)






text \<open>What a tick that returns has done with the message it took.\<close>

lemma tick_result:
  assumes "message_callback g w = Inr (b, g', w')"
    and "items (event_queues w (receive_queue g)) = m # rest"
  shows "signals w' = signals w @ signal_of m"
    and "Control.users (control_if g') =
       (if m = UpdateUsersMessage
        then Control.users (control_if g) ++
               users_snapshot (pan_store w) (Control.server_list (control_if g))
        else Control.users (control_if g))"
    and "device_list (device_if g') =
       (if m = UpdateDevicesMessage then Some (load_all_devices (pan_store w))
        else device_list (device_if g))"
    and "length (shown (notify2 w')) =
       length (shown (notify2 w)) + (if notifications g \<and> notifying m then 1 else 0)"
proof -
  note mc = assms(1) [unfolded message_callback_cons [OF assms(2)]]
  note del = unverified_notification.simps sas_invite_notification.simps
    sas_show_notification.simps sas_done_notification.simps
  show "signals w' = signals w @ signal_of m"
    using mc
    by (cases m)
       (auto simp del: del split: sum.splits if_splits
             dest!: unverified_notification_frame sas_invite_notification_frame
                    sas_show_notification_frame sas_done_notification_frame)
  show "Control.users (control_if g') =
       (if m = UpdateUsersMessage
        then Control.users (control_if g) ++
               users_snapshot (pan_store w) (Control.server_list (control_if g))
        else Control.users (control_if g))"
    using mc
    by (cases m) (auto simp: update_users_map_add simp del: del split: sum.splits if_splits)
  show "device_list (device_if g') =
       (if m = UpdateDevicesMessage then Some (load_all_devices (pan_store w))
        else device_list (device_if g))"
    using mc
    by (cases m) (auto simp del: del split: sum.splits if_splits)
  show "length (shown (notify2 w')) =
       length (shown (notify2 w)) + (if notifications g \<and> notifying m then 1 else 0)"
    using mc
    by (cases m)
       (auto simp del: del split: sum.splits if_splits
             dest!: unverified_notification_frame sas_invite_notification_frame
                    sas_show_notification_frame sas_done_notification_frame)
qed

lemma tick_effect:
  assumes "notify_ok g w" "items (event_queues w (receive_queue g)) = m # rest"
  shows "\<exists>g' w'. message_callback g w = Inr (True, g', w') \<and>
           items (event_queues w' (receive_queue g)) = rest \<and>
           processed [m] g w g' w'"
proof -
  from tick_cons [OF assms] obtain g' w' where
    t: "message_callback g w = Inr (True, g', w')"
    and i: "items (event_queues w' (receive_queue g)) = rest"
    and d: "tasks_done (event_queues w' (receive_queue g)) =
            Suc (tasks_done (event_queues w (receive_queue g)))"
    by blast
  have k: "kept g w g' w'"
    using message_callback_kept [OF t] by simp
  have "processed [m] g w g' w'"
    unfolding processed_def
    using tick_result [OF t assms(2)] d k by simp
  then show ?thesis using t i by blast
qed


lemma tick_disabled:
  assumes "\<not> notifications g"
  shows "\<exists>g' w'. message_callback g w = Inr (True, g', w') \<and> \<not> notifications g' \<and>
           notify2 w' = notify2 w \<and> log_errors w' = log_errors w"
proof (cases "items (event_queues w (receive_queue g))")
  case Nil
  then show ?thesis using assms by (simp add: message_callback_empty)
next
  case (Cons m rest)
  show ?thesis
    unfolding message_callback_cons [OF Cons] using assms
    by (cases m) simp_all
qed

lemma step_disabled:
  assumes "\<not> notifications g" "shown (notify2 w) = []"
  shows "\<exists>ids g' w'. step a (g, w) = Inr (ids, g', w') \<and> \<not> notifications g' \<and>
           notify2 w' = notify2 w \<and> log_errors w' = log_errors w"
proof (cases a)
  case (Call op)
  then show ?thesis using assms by (simp add: perform_eq)
next
  case Tick
  then show ?thesis using tick_disabled [OF assms(1), of w] by auto
next
  case (Activate n key)
  then show ?thesis using assms by simp
next
  case (DaemonPut m)
  then show ?thesis using assms by simp
next
  case (DaemonStore s)
  then show ?thesis using assms by simp
qed

lemma exec_disabled:
  assumes "\<not> notifications g" "shown (notify2 w) = []"
  shows "\<exists>ids g' w'. exec as (g, w) = Inr (ids, g', w') \<and> \<not> notifications g' \<and>
           notify2 w' = notify2 w \<and> log_errors w' = log_errors w"
  using assms
proof (induction as arbitrary: g w)
  case Nil
  then show ?case by simp
next
  case (Cons a as)
  from step_disabled [OF Cons.prems, of a] obtain ids1 g1 w1 where
    s: "step a (g, w) = Inr (ids1, g1, w1)" "\<not> notifications g1"
       "notify2 w1 = notify2 w" "log_errors w1 = log_errors w"
    by blast
  from Cons.IH [of g1 w1] s Cons.prems(2) obtain ids2 g' w' where
    e: "exec as (g1, w1) = Inr (ids2, g', w')" "\<not> notifications g'"
       "notify2 w' = notify2 w1" "log_errors w' = log_errors w1"
    by auto
  show ?case using s e by simp
qed

lemma tick_loaded:
  assumes "message_callback g w = Inr (b, g', w')" "device_list (device_if g) \<noteq> None"
  shows "device_list (device_if g') \<noteq> None"
proof (cases "items (event_queues w (receive_queue g))")
  case Nil
  then show ?thesis using assms by (simp add: message_callback_empty)
next
  case (Cons m rest)
  show ?thesis
    using assms unfolding message_callback_cons [OF Cons]
    by (cases m) (auto split: sum.splits if_splits)
qed

lemma step_Activate:
  assumes "step (Activate n key) (g, w) = Inr (ids, g', w')"
  shows "ids = [] \<and> g' = g \<and> (w' = w \<or> (\<exists>op. w' = snd (perform op g w)))"
proof (cases "n < length (shown (notify2 w))")
  case False
  then show ?thesis using assms by auto
next
  case True
  show ?thesis
  proof (cases "find (\<lambda>a. fst a = key) (actions (shown (notify2 w) ! n))")
    case None
    then show ?thesis using assms True by auto
  next
    case (Some e)
    obtain k l cb ud where e: "e = (k, l, cb, ud)" by (metis surj_pair)
    then have r: "invoke cb g ud w = Inr w'" "ids = []" "g' = g"
      using assms True Some by (auto simp del: invoke.simps split: sum.splits)
    then show ?thesis
      using invoke_perform by blast
  qed
qed

lemma step_usable:
  assumes "step a (g, w) = Inr (ids, g', w')"
    and "notify_ok g w" "device_list (device_if g) \<noteq> None"
  shows "notify_ok g' w' \<and> device_list (device_if g') \<noteq> None"
proof (cases a)
  case (Call op)
  then show ?thesis
    using assms by (auto simp: perform_eq notify_ok_def)
next
  case Tick
  then obtain b where "message_callback g w = Inr (b, g', w')"
    using assms(1) by (auto split: sum.splits)
  then show ?thesis
    using tick_notify_ok tick_loaded assms(2,3) by blast
next
  case (Activate n key)
  then consider "g' = g \<and> w' = w" | op where "g' = g" "w' = snd (perform op g w)"
    using step_Activate [of n key g w ids g' w'] assms(1) by blast
  then show ?thesis
  proof cases
    case 1
    then show ?thesis using assms by simp
  next
    case 2
    then show ?thesis
      using assms(2,3) by (simp add: perform_eq notify_ok_def)
  qed
next
  case (DaemonPut m)
  then show ?thesis using assms by (auto simp: notify_ok_def)
next
  case (DaemonStore s)
  then show ?thesis using assms by (auto simp: notify_ok_def)
qed

lemma exec_usable:
  assumes "exec as (g, w) = Inr (ids, g', w')"
    and "notify_ok g w" "device_list (device_if g) \<noteq> None"
  shows "notify_ok g' w' \<and> device_list (device_if g') \<noteq> None"
  using assms
proof (induction as arbitrary: g w ids)
  case Nil
  then show ?case by simp
next
  case (Cons a as)
  from Cons.prems(1) obtain ids1 g1 w1 ids2 where
    s: "step a (g, w) = Inr (ids1, g1, w1)" and
    e: "exec as (g1, w1) = Inr (ids2, g', w')"
    by (auto split: sum.splits)
  have "notify_ok g1 w1 \<and> device_list (device_if g1) \<noteq> None"
    using step_usable [OF s Cons.prems(2,3)] .
  then show ?case
    using Cons.IH [OF e] by blast
qed

text \<open>
  In every state that construction, \<^verbatim>\<open>run\<close> and the main loop reach, notifications are
  usable where they are enabled, and the device list is loaded.
\<close>

lemma reachable_usable:
  assumes "start rq sq dd sl cfg w0 = Inr (g0, w1)" "exec acts (g0, w1) = Inr (ids, g, w)"
  shows "notify_ok g w \<and> device_list (device_if g) \<noteq> None"
  using exec_usable [OF assms(2)] start_facts(11,15) [OF assms(1)] by simp

lemma start_no_server:
  assumes "PanConfig.notifications cfg" "server_caps (notify2 w0) = None"
  shows "\<exists>g w msg. start rq sq dd sl cfg w0 = Inr (g, w) \<and> \<not> notifications g \<and>
           notify2 w = notify2 w0 \<and> log_errors w = log_errors w0 @ [msg]"
  using assms
  by (simp add: start_def GlibT_init_def new_IdCounter_def run_def notify2_init_def Let_def)

lemma unverified_notification_actions:
  assumes "unverified_notification ga (UnverifiedDevicesSignal u r d) wa = Inr wb"
    and "server_caps (notify2 wa) = Some caps" "''actions'' \<in> set caps"
  shows "actions (last (shown (notify2 wb))) =
           [(''send'', ''Send anyways'', unverified_send_cb, UnverifiedDevicesSignal u r d),
            (''cancel'', ''Cancel sending'', unverified_cancel_cb, UnverifiedDevicesSignal u r d)]"
  using assms
  by (auto simp: get_server_caps_def Notification_show_def Let_def split: if_splits)

lemma users_snapshot_cached:
  assumes "cached g sl"
  shows "Control.users (control_if g) ++ users_snapshot st (Control.server_list (control_if g)) =
         users_snapshot st sl"
  using assms
  by (auto simp: cached_def fun_eq_iff map_add_def users_snapshot_eq subset_iff dom_def
           split: option.splits)

lemma step_bridge:
  assumes "wired g" "cached g sl" "\<not> notifications g" "shown (notify2 w) = []"
  shows "\<exists>g' w'. step a (g, w) = Inr (fst (bridge_step a (view g w)), g', w') \<and>
           view g' w' = snd (bridge_step a (view g w)) \<and>
           wired g' \<and> cached g' sl \<and> \<not> notifications g' \<and>
           notify2 w' = notify2 w \<and> log_errors w' = log_errors w"
proof (cases a)
  case (Call op)
  have "step a (g, w) =
        Inr ([issued g w], g,
             issue (Control.id_counter (control_if g)) (send_queue g)
               (command_of op (issued g w)) w)"
    using Call assms(1) by (simp add: perform_wired)
  moreover have "view g (issue (Control.id_counter (control_if g)) (send_queue g)
                          (command_of op (issued g w)) w) =
                 snd (bridge_step a (view g w))"
    using Call by (simp add: view_def issued_def queue_put_def)
  moreover have "fst (bridge_step a (view g w)) = [issued g w]"
    using Call by (simp add: view_def issued_def)
  ultimately show ?thesis using assms by simp
next
  case Tick
  show ?thesis
  proof (cases "items (event_queues w (receive_queue g))")
    case Nil
    then show ?thesis
      using Tick assms by (simp add: message_callback_empty view_def)
  next
    case (Cons m rest)
    have ok: "notify_ok g w" using assms(3) by (simp add: notify_ok_def)
    from tick_effect [OF ok Cons] obtain g' w' where
      t: "message_callback g w = Inr (True, g', w')"
      and i: "items (event_queues w' (receive_queue g)) = rest"
      and p: "processed [m] g w g' w'"
      by blast
    have k: "kept g w g' w'" using p by (simp add: processed_def)
    from tick_disabled [OF assms(3), of w] t have n:
      "\<not> notifications g'" "notify2 w' = notify2 w" "log_errors w' = log_errors w"
      by simp_all
    have c: "cached g' sl" using tick_cached [OF t assms(2)] .
    have w: "wired g'" using assms(1) k by (simp add: wired_def kept_def)
    have sl: "Control.server_list (control_if g) = sl"
      using assms(2) by (simp add: cached_def)
    have u: "Control.users (control_if g') =
             (if m = UpdateUsersMessage then users_snapshot (pan_store w) sl
              else Control.users (control_if g))"
      using p users_snapshot_cached [OF assms(2), of "pan_store w"]
      by (auto simp: processed_def)
    have d: "device_list (device_if g') =
             (if m = UpdateDevicesMessage then Some (load_all_devices (pan_store w))
              else device_list (device_if g))"
      using p by (auto simp: processed_def)
    have f: "signals w' = signals w @ signal_of m"
      "tasks_done (event_queues w' (receive_queue g)) =
         Suc (tasks_done (event_queues w (receive_queue g)))"
      using p by (simp_all add: processed_def)
    have r: "receive_queue g' = receive_queue g" "send_queue g' = send_queue g"
      "Control.id_counter (control_if g') = Control.id_counter (control_if g)"
      "Control.server_list (control_if g') = Control.server_list (control_if g)"
      "counters w' = counters w" "command_queues w' = command_queues w"
      "pan_store w' = pan_store w"
      using k by (simp_all add: kept_def)
    have "view g' w' = snd (bridge_step Tick (view g w))"
      unfolding view_def r using i u d f Cons sl by simp
    moreover have "fst (bridge_step Tick (view g w)) = []"
      by (simp split: list.splits)
    ultimately show ?thesis
      using Tick t w c n by simp
  qed
next
  case (Activate n key)
  then show ?thesis using assms by simp
next
  case (DaemonPut m)
  then show ?thesis
    using assms by (simp add: view_def queue_put_def wired_def cached_def)
next
  case (DaemonStore s)
  then show ?thesis
    using assms by (simp add: view_def wired_def cached_def)
qed

lemma exec_bridge:
  assumes "wired g" "cached g sl" "\<not> notifications g" "shown (notify2 w) = []"
  shows "\<exists>g' w'. exec as (g, w) = Inr (fst (bridge_exec as (view g w)), g', w') \<and>
           view g' w' = snd (bridge_exec as (view g w)) \<and>
           \<not> notifications g' \<and> notify2 w' = notify2 w \<and> log_errors w' = log_errors w"
  using assms
proof (induction as arbitrary: g w)
  case Nil
  then show ?case by simp
next
  case (Cons a as)
  from step_bridge [OF Cons.prems, of a] obtain g1 w1 where
    s: "step a (g, w) = Inr (fst (bridge_step a (view g w)), g1, w1)"
       "view g1 w1 = snd (bridge_step a (view g w))"
       "wired g1" "cached g1 sl" "\<not> notifications g1"
       "notify2 w1 = notify2 w" "log_errors w1 = log_errors w"
    by blast
  from Cons.IH [OF s(3,4,5), of w1] s(6) Cons.prems(4) obtain g' w' where
    e: "exec as (g1, w1) = Inr (fst (bridge_exec as (view g1 w1)), g', w')"
       "view g' w' = snd (bridge_exec as (view g1 w1))"
       "\<not> notifications g'" "notify2 w' = notify2 w1" "log_errors w' = log_errors w1"
    by auto
  show ?case
    using s e by (simp add: split_def Let_def)
qed

lemma start_view:
  assumes "start rq sq dd sl cfg w0 = Inr (g, w)"
  shows "view g w =
     \<lparr>inbound = items (event_queues w0 rq),
      handled = tasks_done (event_queues w0 rq),
      outbound = items (command_queues w0 sq),
      next_id = 0,
      users_cache = users_snapshot (pan_store w0) sl,
      devices_cache = Some (load_all_devices (pan_store w0)),
      emitted = signals w0,
      storage = pan_store w0,
      servers = sl\<rparr>"
  using start_facts [OF assms]
  by (simp add: view_def issued_def cached_def)

lemma ex_boot_start:
  "start 0 1 ''/data'' ex_servers ex_config ex_world = Inr (fst ex_boot, snd ex_boot)"
proof -
  have "\<not> isl (start 0 1 ''/data'' ex_servers ex_config ex_world)"
    by code_simp
  then show ?thesis
    unfolding ex_boot_def by simp
qed

lemma ex_run_exec:
  "exec ex_acts (fst ex_boot, snd ex_boot) = Inr (fst ex_run, fst (snd ex_run), snd (snd ex_run))"
proof -
  have "\<not> isl (exec ex_acts ex_boot)"
    by code_simp
  then show ?thesis
    unfolding ex_run_def by simp
qed

lemma ex_update_exec:
  "exec [Tick, DaemonStore ex_store2, DaemonPut UpdateUsersMessage] (fst ex_boot, snd ex_boot) =
     Inr (fst ex_update, fst (snd ex_update), snd (snd ex_update))"
proof -
  have "\<not> isl (exec [Tick, DaemonStore ex_store2, DaemonPut UpdateUsersMessage] ex_boot)"
    by code_simp
  then show ?thesis unfolding ex_update_def by simp
qed

lemma ex_reply_head:
  "items (event_queues (snd (snd ex_reply)) (receive_queue (fst (snd ex_reply)))) =
     DaemonResponse 0 ''alice'' ''0'' ''ok'' # [UpdateDevicesMessage]"
  by code_simp

lemma ex_other_head:
  "items (event_queues (snd (snd ex_other)) (receive_queue (fst (snd ex_other)))) =
     OtherObject ''KeyRequest'' # [UpdateUsersMessage]"
  by code_simp

lemma ex_rendered_eq:
  "unverified_notification (fst ex_boot) (UnverifiedDevicesSignal ''alice'' ''!r:example'' ''Room'')
     (snd ex_boot) = Inr ex_rendered"
proof -
  have "\<not> isl (unverified_notification (fst ex_boot) ex_unverified (snd ex_boot))"
    by code_simp
  then show ?thesis
    unfolding ex_rendered_def ex_unverified_def by simp
qed

lemma ex_twice_exec:
  "exec [DaemonPut ex_unverified, Tick, DaemonPut ex_unverified, Tick] (fst ex_boot, snd ex_boot) =
     Inr (fst ex_twice, fst (snd ex_twice), snd (snd ex_twice))"
proof -
  have "\<not> isl (exec [DaemonPut ex_unverified, Tick, DaemonPut ex_unverified, Tick] ex_boot)"
    by code_simp
  then show ?thesis unfolding ex_twice_def by simp
qed

lemma ex_no_boot_start:
  "start 0 1 ''/data'' ex_servers ex_config ex_no_server = Inr (fst ex_no_boot, snd ex_no_boot)"
proof -
  have "\<not> isl (start 0 1 ''/data'' ex_servers ex_config ex_no_server)"
    by code_simp
  then show ?thesis
    unfolding ex_no_boot_def by simp
qed

lemma ex_quiet_exec:
  "exec ex_quiet_acts (fst ex_no_boot, snd ex_no_boot) =
     Inr (fst ex_quiet, fst (snd ex_quiet), snd (snd ex_quiet))"
proof -
  have "\<not> isl (exec ex_quiet_acts ex_no_boot)"
    by code_simp
  then show ?thesis unfolding ex_quiet_def by simp
qed

section \<open>The claims\<close>

subsection \<open>C1\<close>

text \<open>
  C1. \<open>N\<close> reads of \<^verbatim>\<open>IdCounter.message_id\<close> on a new counter return \<open>0, \<dots>, N - 1\<close> in call
  order. The two interfaces of a started \<^verbatim>\<open>GlibT\<close> hold the same counter, so the commands
  put on the send queue since the start carry the ids \<open>0, 1, 2, \<dots>\<close> in the order in which
  they were put, whichever interface issued them: of two such commands the later one has
  the greater id; and the ids returned to callers increase strictly as well.
\<close>

theorem ids_count_up_in_call_order:
  "fst (message_ids N IdCounter_init) = map int [0..<N] \<and>
   (start rq sq dd sl cfg w0 = Inr (g0, w1) \<and> exec acts (g0, w1) = Inr (ids, g, w) \<longrightarrow>
      Control.id_counter (control_if g) = Devices.id_counter (device_if g) \<and>
      (\<exists>new. items (command_queues w sq) = items (command_queues w0 sq) @ new \<and>
         map message_id new = map int [0..<length new] \<and>
         (\<forall>i j. i < j \<and> j < length new \<longrightarrow> message_id (new ! i) < message_id (new ! j)) \<and>
         set ids \<subseteq> message_id ` set new) \<and>
      sorted_wrt (<) ids)"
proof (intro conjI impI)
  show "fst (message_ids N IdCounter_init) = map int [0..<N]"
    by (simp add: message_ids_from IdCounter_init_def)
next
  assume a: "start rq sq dd sl cfg w0 = Inr (g0, w1) \<and> exec acts (g0, w1) = Inr (ids, g, w)"
  note s = start_facts [of rq sq dd sl cfg w0 g0 w1]
  have adv: "advance g0 w1 ids g w"
    using exec_advance [of g0 acts w1 ids g w] s(1) a by blast
  then obtain new where n:
    "wired g" "send_queue g = send_queue g0"
    "sent g w = sent g0 w1 @ new"
    "map message_id new = ids_from (issued g0 w1) (length new)"
    "set ids \<subseteq> set (map message_id new)" "sorted_wrt (<) ids"
    unfolding advance_def by blast
  show "Control.id_counter (control_if g) = Devices.id_counter (device_if g)"
    using n(1) by (simp add: wired_def)
  show "sorted_wrt (<) ids" by (rule n(6))
  have i0: "issued g0 w1 = 0" and sq: "send_queue g0 = sq"
    and cq: "command_queues w1 = command_queues w0"
    using s a by simp_all
  have 1: "items (command_queues w sq) = items (command_queues w0 sq) @ new"
    using n(2,3) sq cq by (simp add: sent_def)
  have 2: "map message_id new = map int [0..<length new]"
    using n(4) i0 by (simp add: ids_from_def)
  have "sorted_wrt (<) (map message_id new)"
    using sorted_ids_from [of 0 "length new"] n(4) i0 by simp
  then have 3: "\<forall>i j. i < j \<and> j < length new \<longrightarrow> message_id (new ! i) < message_id (new ! j)"
    by (simp add: sorted_wrt_iff_nth_less)
  show "\<exists>new. items (command_queues w sq) = items (command_queues w0 sq) @ new \<and>
         map message_id new = map int [0..<length new] \<and>
         (\<forall>i j. i < j \<and> j < length new \<longrightarrow> message_id (new ! i) < message_id (new ! j)) \<and>
         set ids \<subseteq> message_id ` set new"
  proof (intro exI conjI)
    show "set ids \<subseteq> message_id ` set new" using n(5) by simp
  qed (rule 1 2 3)+
qed

theorem ids_count_up_in_call_order_witness:
  "start 0 1 ''/data'' ex_servers ex_config ex_world = Inr (fst ex_boot, snd ex_boot) \<and>
   exec ex_acts (fst ex_boot, snd ex_boot) = Inr (fst ex_run, fst (snd ex_run), snd (snd ex_run)) \<and>
   fst ex_run = [0, 1] \<and>
   map message_id (items (command_queues (snd (snd ex_run)) 1)) = [0, 1] \<and>
   sorted_wrt (<) (fst ex_run) \<and>
   (\<exists>new. items (command_queues (snd (snd ex_run)) 1) = items (command_queues ex_world 1) @ new \<and>
      map message_id new = map int [0..<length new])"
proof -
  have 1: "fst ex_run = [0, 1]" by code_simp
  have 2: "map message_id (items (command_queues (snd (snd ex_run)) 1)) = [0, 1]" by code_simp
  show ?thesis
    using ids_count_up_in_call_order [of 2 0 1 "''/data''" ex_servers ex_config ex_world
        "fst ex_boot" "snd ex_boot" ex_acts "fst ex_run" "fst (snd ex_run)" "snd (snd ex_run)"]
      ex_boot_start ex_run_exec 1 2
    by blast
qed

subsection \<open>C2\<close>

text \<open>
  C2. When the tick takes a \<^verbatim>\<open>DaemonResponse\<close>, it emits exactly one signal, the
  \<^verbatim>\<open>Response\<close> with the id, the account and the dictionary of code and message of the
  event; and when the id of the event is the id carried by the command that an operation
  put on its queue, the id of the signal is the id that the operation returned.
\<close>

theorem daemon_response_emits_response:
  assumes "items (event_queues w (receive_queue self)) = DaemonResponse i u c m # rest"
  shows "\<exists>w'. message_callback self w = Inr (True, self, w') \<and>
           signals w' = signals w @ [Response i u [(''code'', c), (''message'', m)]] \<and>
           (i = message_id (last (items (command_queues (snd (perform op self0 w0))
                                          (queue_of op self0)))) \<longrightarrow>
              signals w' = signals w @
                [Response (fst (perform op self0 w0)) u [(''code'', c), (''message'', m)]])"
proof -
  have "message_id (last (items (command_queues (snd (perform op self0 w0)) (queue_of op self0))))
        = fst (perform op self0 w0)"
    by (simp add: perform_eq queue_put_def)
  then show ?thesis
    using message_callback_DaemonResponse [OF assms] by auto
qed

theorem daemon_response_emits_response_witness:
  "items (event_queues (snd (snd ex_reply)) (receive_queue (fst (snd ex_reply)))) =
     DaemonResponse 0 ''alice'' ''0'' ''ok'' # [UpdateDevicesMessage] \<and>
   fst (perform (ExportKeys_op ''alice'' ''/tmp/k.txt'' ''pw'') (fst ex_boot) (snd ex_boot)) = 0 \<and>
   0 = message_id (last (items (command_queues
         (snd (perform (ExportKeys_op ''alice'' ''/tmp/k.txt'' ''pw'') (fst ex_boot) (snd ex_boot)))
         (queue_of (ExportKeys_op ''alice'' ''/tmp/k.txt'' ''pw'') (fst ex_boot))))) \<and>
   (\<exists>w'. message_callback (fst (snd ex_reply)) (snd (snd ex_reply)) =
            Inr (True, fst (snd ex_reply), w') \<and>
      signals w' = signals (snd (snd ex_reply)) @
        [Response 0 ''alice'' [(''code'', ''0''), (''message'', ''ok'')]])"
proof -
  have 1: "fst (perform (ExportKeys_op ''alice'' ''/tmp/k.txt'' ''pw'') (fst ex_boot) (snd ex_boot)) = 0"
    by code_simp
  have 2: "0 = message_id (last (items (command_queues
         (snd (perform (ExportKeys_op ''alice'' ''/tmp/k.txt'' ''pw'') (fst ex_boot) (snd ex_boot)))
         (queue_of (ExportKeys_op ''alice'' ''/tmp/k.txt'' ''pw'') (fst ex_boot)))))"
    by code_simp
  show ?thesis
    using daemon_response_emits_response [OF ex_reply_head,
        of "ExportKeys_op ''alice'' ''/tmp/k.txt'' ''pw''" "fst ex_boot" "snd ex_boot"]
      ex_reply_head 1 2
    by auto
qed

subsection \<open>C3\<close>

text \<open>
  C3. Each of the twelve operations returns, for every state of the queues, and puts
  exactly one message at the end of its queue: the message of its kind with its
  arguments, carrying the id that the operation returns. No other queue changes.
\<close>

theorem operation_enqueues_one_command:
  "message_id (command_of op (fst (perform op self w))) = fst (perform op self w) \<and>
   command_queues (snd (perform op self w)) =
     (command_queues w)
       (queue_of op self := queue_put (command_queues w (queue_of op self))
                              (command_of op (fst (perform op self w)))) \<and>
   items (command_queues (snd (perform op self w)) (queue_of op self)) =
     items (command_queues w (queue_of op self)) @ [command_of op (fst (perform op self w))] \<and>
   event_queues (snd (perform op self w)) = event_queues w"
  by (simp add: perform_eq queue_put_def)

subsection \<open>C4\<close>




subsection \<open>C5\<close>

text \<open>
  C5. After an \<^verbatim>\<open>UpdateUsersMessage\<close> has been processed, \<^verbatim>\<open>ListServers\<close> returns
  exactly the snapshot that the store gives at that moment for the configured servers,
  whatever the store held before and whatever happened since the interface was started.
\<close>

theorem update_users_replaces_cache:
  assumes "start rq sq dd sl cfg w0 = Inr (g0, w1)"
    and "exec acts (g0, w1) = Inr (ids, g, w)"
    and "items (event_queues w (receive_queue g)) = UpdateUsersMessage # rest"
  shows "\<exists>g' w'. message_callback g w = Inr (True, g', w') \<and>
           fst (ListServers (control_if g') w') = users_snapshot (pan_store w) sl \<and>
           dom (fst (ListServers (control_if g') w')) = name ` set sl \<and>
           pan_store w' = pan_store w"
proof -
  have c: "cached g sl"
    using exec_cached [OF assms(2) start_facts(9) [OF assms(1)]] .
  let ?p = "popped (receive_queue g) w"
  let ?g = "g\<lparr>control_if := update_users (control_if g) ?p\<rparr>"
  have t: "message_callback g w = Inr (True, ?g, marked (receive_queue g) ?p)"
    using message_callback_UpdateUsers [OF assms(3)] .
  have u: "Control.users (control_if ?g) = users_snapshot (pan_store w) sl"
    using update_users_cached [of "control_if g" ?p] c by (simp add: cached_def)
  have "dom (users_snapshot (pan_store w) sl) = name ` set sl"
    by (auto simp: users_snapshot_eq split: if_splits)
  then show ?thesis
    using t u by (simp add: ListServers_def)
qed

theorem update_users_replaces_cache_witness:
  "start 0 1 ''/data'' ex_servers ex_config ex_world = Inr (fst ex_boot, snd ex_boot) \<and>
   exec [Tick, DaemonStore ex_store2, DaemonPut UpdateUsersMessage] (fst ex_boot, snd ex_boot) =
     Inr (fst ex_update, fst (snd ex_update), snd (snd ex_update)) \<and>
   items (event_queues (snd (snd ex_update)) (receive_queue (fst (snd ex_update)))) =
     UpdateUsersMessage # [] \<and>
   Control.users (control_if (fst (snd ex_update))) ''example'' = Some [(''alice'', ''ALICEDEV'')] \<and>
   users_snapshot (pan_store (snd (snd ex_update))) ex_servers ''example'' =
     Some [(''carol'', ''CAROLDEV'')] \<and>
   (\<exists>g' w'. message_callback (fst (snd ex_update)) (snd (snd ex_update)) = Inr (True, g', w') \<and>
      fst (ListServers (control_if g') w') =
        users_snapshot (pan_store (snd (snd ex_update))) ex_servers)"
proof -
  have 1: "items (event_queues (snd (snd ex_update)) (receive_queue (fst (snd ex_update)))) =
           UpdateUsersMessage # []"
    by code_simp
  have 3: "Control.users (control_if (fst (snd ex_update))) ''example'' = Some [(''alice'', ''ALICEDEV'')]"
    by code_simp
  have 4: "users_snapshot (pan_store (snd (snd ex_update))) ex_servers ''example'' =
           Some [(''carol'', ''CAROLDEV'')]"
    by code_simp
  show ?thesis
    using update_users_replaces_cache [OF ex_boot_start ex_update_exec 1] 1 3 4
      ex_boot_start ex_update_exec
    by auto
qed

subsection \<open>C6\<close>

text \<open>
  C6. With the device list loaded, as it is from the constructor on
  (\<open>reachable_usable\<close>), \<^verbatim>\<open>List\<close> for an
  unknown account and \<^verbatim>\<open>ListUserDevices\<close> for an unknown account or an unknown user
  return the empty list and raise nothing; and the three queries return the world as they
  found it, so they put nothing on a queue.
\<close>

theorem queries_tolerate_unknown:
  assumes "device_list self = Some dl"
  shows "(map_of dl pan_user = None \<longrightarrow>
            List self pan_user w = Inr ([], w) \<and>
            ListUserDevices self pan_user user_id w = Inr ([], w)) \<and>
         (\<forall>ds. map_of dl pan_user = Some ds \<and> map_of ds user_id = None \<longrightarrow>
            ListUserDevices self pan_user user_id w = Inr ([], w)) \<and>
         (\<exists>r. List self pan_user w = Inr (r, w)) \<and>
         (\<exists>r. ListUserDevices self pan_user user_id w = Inr (r, w)) \<and>
         ListServers c w = (Control.users c, w)"
  using assms
  by (auto simp: List_def ListUserDevices_def ListServers_def split: option.splits)

theorem queries_tolerate_unknown_witness:
  "device_list (device_if (fst ex_boot)) = Some (load_all_devices ex_store) \<and>
   map_of (load_all_devices ex_store) ''dave'' = None \<and>
   List (device_if (fst ex_boot)) ''dave'' ex_world = Inr ([], ex_world) \<and>
   ListUserDevices (device_if (fst ex_boot)) ''dave'' ''bob'' ex_world = Inr ([], ex_world) \<and>
   map_of (load_all_devices ex_store) ''alice'' \<noteq> None \<and>
   map_of (the (map_of (load_all_devices ex_store) ''alice'')) ''erin'' = None \<and>
   ListUserDevices (device_if (fst ex_boot)) ''alice'' ''erin'' ex_world = Inr ([], ex_world)"
proof -
  have 1: "device_list (device_if (fst ex_boot)) = Some (load_all_devices ex_store)"
    by code_simp
  have 2: "map_of (load_all_devices ex_store) ''dave'' = None"
    by code_simp
  have 3: "map_of (load_all_devices ex_store) ''alice'' =
           Some (the (map_of (load_all_devices ex_store) ''alice''))"
    by code_simp
  have 4: "map_of (the (map_of (load_all_devices ex_store) ''alice'')) ''erin'' = None"
    by code_simp
  show ?thesis
    using queries_tolerate_unknown [OF 1, of "''dave''" ex_world "''bob''"]
      queries_tolerate_unknown [OF 1, of "''alice''" ex_world "''erin''"] 1 2 3 4
    by auto
qed

subsection \<open>C7\<close>

text \<open>
  C7. A message of a kind that \<^verbatim>\<open>message_callback\<close> does not test for is taken from the
  queue and marked as done, the tick returns \<open>True\<close>, and nothing else happens: the
  interface objects with their caches and every other part of the world are as before.
\<close>

theorem unrecognized_message_ignored:
  assumes "items (event_queues w (receive_queue self)) = m # rest" and "\<not> recognized m"
  shows "message_callback self w =
           Inr (True, self,
                w\<lparr>event_queues := (event_queues w)
                     (receive_queue self :=
                        (event_queues w (receive_queue self))
                          \<lparr>items := rest,
                           tasks_done := Suc (tasks_done (event_queues w (receive_queue self)))\<rparr>)\<rparr>)"
proof -
  obtain cls where "m = OtherObject cls"
    using assms(2) by (cases m) simp_all
  then show ?thesis
    using message_callback_OtherObject [of w self cls rest] assms(1)
    by (simp add: popped_def marked_def queue_task_done_def)
qed

theorem unrecognized_message_ignored_witness:
  "items (event_queues (snd (snd ex_other)) (receive_queue (fst (snd ex_other)))) =
     OtherObject ''KeyRequest'' # [UpdateUsersMessage] \<and>
   \<not> recognized (OtherObject ''KeyRequest'') \<and>
   message_callback (fst (snd ex_other)) (snd (snd ex_other)) =
     Inr (True, fst (snd ex_other),
          (snd (snd ex_other))
            \<lparr>event_queues := (event_queues (snd (snd ex_other)))
               (receive_queue (fst (snd ex_other)) :=
                  (event_queues (snd (snd ex_other)) (receive_queue (fst (snd ex_other))))
                    \<lparr>items := [UpdateUsersMessage],
                     tasks_done := Suc (tasks_done (event_queues (snd (snd ex_other))
                                          (receive_queue (fst (snd ex_other)))))\<rparr>)\<rparr>)"
proof -
  have "\<not> recognized (OtherObject ''KeyRequest'')" by simp
  then show ?thesis
    using unrecognized_message_ignored [OF ex_other_head] ex_other_head
    by simp
qed

subsection \<open>C8\<close>

text \<open>
  C8, as amended. Starting the interface does not ask the notification server for its
  capabilities; each rendering of a notification that can carry actions asks once. When
  notifications are configured and no server is found, the start succeeds, one line is
  logged, notifications are off and stay off, nothing is shown, nothing more is logged
  and no exception is raised, whatever the main loop dispatches afterwards; and the
  interface goes on exactly as the bridge of the spec does with notifications off: each
  method call returns the next id and puts its command, each tick handles the oldest
  event, emits its signal and replaces the cache it names.
\<close>

theorem notifications_off_without_server:
  "(start rq sq dd sl cfg w0 = Inr (g0, w1) \<longrightarrow>
      caps_queries (notify2 w1) = caps_queries (notify2 w0)) \<and>
   (unverified_notification ga ev wa = Inr wb \<or> sas_invite_notification ga ev wa = Inr wb \<or>
    sas_show_notification ga ev wa = Inr wb \<longrightarrow>
      caps_queries (notify2 wb) = Suc (caps_queries (notify2 wa))) \<and>
   (PanConfig.notifications cfg \<and> server_caps (notify2 w0) = None \<and> shown (notify2 w0) = [] \<longrightarrow>
      (\<exists>g w msg. start rq sq dd sl cfg w0 = Inr (g, w) \<and> \<not> notifications g \<and>
         notify2 w = notify2 w0 \<and> log_errors w = log_errors w0 @ [msg] \<and>
         view g w =
           \<lparr>inbound = items (event_queues w0 rq), handled = tasks_done (event_queues w0 rq),
            outbound = items (command_queues w0 sq), next_id = 0,
            users_cache = users_snapshot (pan_store w0) sl,
            devices_cache = Some (load_all_devices (pan_store w0)),
            emitted = signals w0, storage = pan_store w0, servers = sl\<rparr> \<and>
         (\<forall>acts. \<exists>g' w'.
            exec acts (g, w) = Inr (fst (bridge_exec acts (view g w)), g', w') \<and>
            view g' w' = snd (bridge_exec acts (view g w)) \<and>
            \<not> notifications g' \<and> notify2 w' = notify2 w0 \<and> log_errors w' = log_errors w)))"
proof (intro conjI impI)
  assume "start rq sq dd sl cfg w0 = Inr (g0, w1)"
  then show "caps_queries (notify2 w1) = caps_queries (notify2 w0)"
    by (rule start_facts(13))
next
  assume "unverified_notification ga ev wa = Inr wb \<or> sas_invite_notification ga ev wa = Inr wb \<or>
    sas_show_notification ga ev wa = Inr wb"
  then show "caps_queries (notify2 wb) = Suc (caps_queries (notify2 wa))"
    by (auto dest!: unverified_notification_frame sas_invite_notification_frame
                    sas_show_notification_frame)
next
  assume a: "PanConfig.notifications cfg \<and> server_caps (notify2 w0) = None \<and> shown (notify2 w0) = []"
  then obtain g w msg where s: "start rq sq dd sl cfg w0 = Inr (g, w)" "\<not> notifications g"
    "notify2 w = notify2 w0" "log_errors w = log_errors w0 @ [msg]"
    using start_no_server [of cfg w0 rq sq dd sl] by blast
  note f = start_facts [OF s(1)]
  have "\<forall>acts. \<exists>g' w'.
            exec acts (g, w) = Inr (fst (bridge_exec acts (view g w)), g', w') \<and>
            view g' w' = snd (bridge_exec acts (view g w)) \<and>
            \<not> notifications g' \<and> notify2 w' = notify2 w0 \<and> log_errors w' = log_errors w"
    using exec_bridge [OF f(1) f(9) s(2), of w] s(3) a by simp
  then show "\<exists>g w msg. start rq sq dd sl cfg w0 = Inr (g, w) \<and> \<not> notifications g \<and>
         notify2 w = notify2 w0 \<and> log_errors w = log_errors w0 @ [msg] \<and>
         view g w =
           \<lparr>inbound = items (event_queues w0 rq), handled = tasks_done (event_queues w0 rq),
            outbound = items (command_queues w0 sq), next_id = 0,
            users_cache = users_snapshot (pan_store w0) sl,
            devices_cache = Some (load_all_devices (pan_store w0)),
            emitted = signals w0, storage = pan_store w0, servers = sl\<rparr> \<and>
         (\<forall>acts. \<exists>g' w'.
            exec acts (g, w) = Inr (fst (bridge_exec acts (view g w)), g', w') \<and>
            view g' w' = snd (bridge_exec acts (view g w)) \<and>
            \<not> notifications g' \<and> notify2 w' = notify2 w0 \<and> log_errors w' = log_errors w)"
    using s start_view [OF s(1)] by blast
qed

text \<open>
  C8 as stated fails: with a notification server that supports actions, the start asks
  for the capabilities not once but never, and two notifications rendered afterwards ask
  twice.
\<close>

theorem capabilities_not_queried_at_startup:
  "start 0 1 ''/data'' ex_servers ex_config ex_world = Inr (fst ex_boot, snd ex_boot) \<and>
   notifications (fst ex_boot) \<and>
   caps_queries (notify2 ex_world) = 0 \<and>
   caps_queries (notify2 (snd ex_boot)) = 0 \<and>
   exec [DaemonPut ex_unverified, Tick, DaemonPut ex_unverified, Tick] (fst ex_boot, snd ex_boot) =
     Inr (fst ex_twice, fst (snd ex_twice), snd (snd ex_twice)) \<and>
   caps_queries (notify2 (snd (snd ex_twice))) = 2"
proof -
  have "notifications (fst ex_boot)" by code_simp
  moreover have "caps_queries (notify2 ex_world) = 0" by code_simp
  moreover have "caps_queries (notify2 (snd ex_boot)) = 0" by code_simp
  moreover have "caps_queries (notify2 (snd (snd ex_twice))) = 2" by code_simp
  ultimately show ?thesis
    using ex_boot_start ex_twice_exec by simp
qed

theorem notifications_off_without_server_witness:
  "start 0 1 ''/data'' ex_servers ex_config ex_world = Inr (fst ex_boot, snd ex_boot) \<and>
   caps_queries (notify2 (snd ex_boot)) = caps_queries (notify2 ex_world) \<and>
   unverified_notification (fst ex_boot) (UnverifiedDevicesSignal ''alice'' ''!r:example'' ''Room'')
     (snd ex_boot) = Inr ex_rendered \<and>
   caps_queries (notify2 ex_rendered) = Suc (caps_queries (notify2 (snd ex_boot))) \<and>
   PanConfig.notifications ex_config \<and> server_caps (notify2 ex_no_server) = None \<and>
   shown (notify2 ex_no_server) = [] \<and>
   start 0 1 ''/data'' ex_servers ex_config ex_no_server = Inr (fst ex_no_boot, snd ex_no_boot) \<and>
   \<not> notifications (fst ex_no_boot) \<and>
   length (log_errors (snd ex_no_boot)) = 1 \<and>
   exec ex_quiet_acts (fst ex_no_boot, snd ex_no_boot) =
     Inr (fst (bridge_exec ex_quiet_acts (view (fst ex_no_boot) (snd ex_no_boot))),
          fst (snd ex_quiet), snd (snd ex_quiet)) \<and>
   view (fst (snd ex_quiet)) (snd (snd ex_quiet)) =
     snd (bridge_exec ex_quiet_acts (view (fst ex_no_boot) (snd ex_no_boot))) \<and>
   \<not> notifications (fst (snd ex_quiet)) \<and>
   notify2 (snd (snd ex_quiet)) = notify2 ex_no_server \<and>
   fst ex_quiet = [0] \<and>
   signals (snd (snd ex_quiet)) = [UnverifiedDevices ''alice'' ''!r:example'' ''Room''] \<and>
   items (command_queues (snd (snd ex_quiet)) 1) =
     [ExportKeysMessage 0 ''alice'' ''/tmp/k.txt'' ''pw'']"
proof -
  have 1: "PanConfig.notifications ex_config" by (simp add: ex_config_def)
  have 2: "server_caps (notify2 ex_no_server) = None" "shown (notify2 ex_no_server) = []"
    by (simp_all add: ex_no_server_def)
  have a: "caps_queries (notify2 (snd ex_boot)) = caps_queries (notify2 ex_world)"
    using notifications_off_without_server
      [of 0 1 "''/data''" ex_servers ex_config ex_world "fst ex_boot" "snd ex_boot"]
      ex_boot_start by blast
  have b: "caps_queries (notify2 ex_rendered) = Suc (caps_queries (notify2 (snd ex_boot)))"
    using notifications_off_without_server
      [of _ _ _ _ _ _ _ _ "fst ex_boot" "UnverifiedDevicesSignal ''alice'' ''!r:example'' ''Room''"
          "snd ex_boot" ex_rendered]
      ex_rendered_eq by blast
  from notifications_off_without_server
      [of 0 1 "''/data''" ex_servers ex_config ex_no_server] 1 2
  obtain g w msg where c:
    "start 0 1 ''/data'' ex_servers ex_config ex_no_server = Inr (g, w)"
    "\<not> notifications g" "log_errors w = log_errors ex_no_server @ [msg]"
    "\<forall>acts. \<exists>g' w'.
        exec acts (g, w) = Inr (fst (bridge_exec acts (view g w)), g', w') \<and>
        view g' w' = snd (bridge_exec acts (view g w)) \<and>
        \<not> notifications g' \<and> notify2 w' = notify2 ex_no_server \<and> log_errors w' = log_errors w"
    by blast
  have "Inr (g, w) = (Inr (fst ex_no_boot, snd ex_no_boot) :: error + GlibT \<times> world)"
    by (rule trans [OF c(1) [symmetric] ex_no_boot_start])
  then have gw: "g = fst ex_no_boot" "w = snd ex_no_boot"
    by (simp_all only: sum.inject prod.inject)
  from c(4) obtain g' w' where d:
    "exec ex_quiet_acts (g, w) = Inr (fst (bridge_exec ex_quiet_acts (view g w)), g', w')"
    "view g' w' = snd (bridge_exec ex_quiet_acts (view g w))"
    "\<not> notifications g'" "notify2 w' = notify2 ex_no_server"
    by blast
  have "Inr (fst (bridge_exec ex_quiet_acts (view g w)), g', w') =
        (Inr (fst ex_quiet, fst (snd ex_quiet), snd (snd ex_quiet))
           :: error + int list \<times> GlibT \<times> world)"
    using trans [OF d(1) [symmetric]] ex_quiet_exec unfolding gw by blast
  then have gw': "g' = fst (snd ex_quiet)" "w' = snd (snd ex_quiet)"
    by (simp_all only: sum.inject prod.inject)
  have 3: "length (log_errors (snd ex_no_boot)) = 1"
    using c(3) gw by (simp add: ex_no_server_def ex_world_def)
  have 4: "fst ex_quiet = [0]" by code_simp
  have 5: "signals (snd (snd ex_quiet)) = [UnverifiedDevices ''alice'' ''!r:example'' ''Room'']"
    by code_simp
  have 6: "items (command_queues (snd (snd ex_quiet)) 1) =
           [ExportKeysMessage 0 ''alice'' ''/tmp/k.txt'' ''pw'']"
    by code_simp
  show ?thesis
    using ex_boot_start a ex_rendered_eq b 1 2 ex_no_boot_start c(2) d gw gw' 3 4 5 6
    by simp
qed

subsection \<open>C9\<close>

text \<open>
  C9. Let a notification on display be one that \<^verbatim>\<open>unverified_notification\<close> rendered for
  the account \<open>u\<close> and the room \<open>r\<close>, with a server that supports actions. Triggering its
  action \<^verbatim>\<open>send\<close> puts exactly one message on the send queue, the \<^verbatim>\<open>SendAnywaysMessage\<close>
  for \<open>u\<close> and \<open>r\<close>, and its id is new: it was not returned to any caller and is carried
  by no command put on the queue since the start.
\<close>

theorem send_anyway_action_enqueues:
  assumes "start rq sq dd sl cfg w0 = Inr (g0, w1)"
    and "exec acts (g0, w1) = Inr (ids, g, w)"
    and "n < length (shown (notify2 w))"
    and "unverified_notification ga (UnverifiedDevicesSignal u r d) wa = Inr wb"
    and "server_caps (notify2 wa) = Some caps" and "''actions'' \<in> set caps"
    and "shown (notify2 w) ! n = last (shown (notify2 wb))"
  shows "\<exists>i w'. step (Activate n ''send'') (g, w) = Inr ([], g, w') \<and>
           command_queues w' =
             (command_queues w)(sq := queue_put (command_queues w sq) (SendAnywaysMessage i u r)) \<and>
           items (command_queues w' sq) = items (command_queues w sq) @ [SendAnywaysMessage i u r] \<and>
           i \<notin> set ids \<and>
           i \<notin> message_id ` set (drop (length (items (command_queues w0 sq)))
                                     (items (command_queues w sq)))"
proof -
  note s = start_facts [OF assms(1)]
  have adv: "advance g0 w1 ids g w"
    using exec_advance [OF s(1) assms(2)] .
  then obtain new where n:
    "wired g" "send_queue g = send_queue g0"
    "sent g w = sent g0 w1 @ new"
    "map message_id new = ids_from (issued g0 w1) (length new)"
    "issued g w = issued g0 w1 + int (length new)"
    "set ids \<subseteq> set (map message_id new)"
    unfolding advance_def by blast
  let ?i = "issued g w"
  let ?ev = "UnverifiedDevicesSignal u r d"
  let ?w' = "issue (Control.id_counter (control_if g)) (send_queue g) (SendAnywaysMessage ?i u r) w"
  have f: "find (\<lambda>a. fst a = ''send'') (actions (shown (notify2 w) ! n)) =
           Some (''send'', ''Send anyways'', unverified_send_cb, ?ev)"
    using unverified_notification_actions [OF assms(4,5,6)] assms(7) by simp
  have "invoke unverified_send_cb g ?ev w = Inr ?w'"
    using perform_wired [OF n(1), of "SendAnyways_op u r" w] by simp
  then have st: "step (Activate n ''send'') (g, w) = Inr ([], g, ?w')"
    using f assms(3) by simp
  have q: "send_queue g = sq" using n(2) s(2) by simp
  have new: "drop (length (items (command_queues w0 sq))) (items (command_queues w sq)) = new"
    using n(3) q s(2,5) by (simp add: sent_def)
  have fresh: "?i \<notin> set (map message_id new)"
    using n(4,5) by (simp add: set_ids_from)
  have "?i \<notin> set ids" using fresh n(6) by blast
  moreover have "?i \<notin> message_id ` set (drop (length (items (command_queues w0 sq)))
                                            (items (command_queues w sq)))"
    using fresh new by simp
  moreover have "command_queues ?w' =
      (command_queues w)(sq := queue_put (command_queues w sq) (SendAnywaysMessage ?i u r))"
    using q by simp
  moreover have "items (command_queues ?w' sq) =
      items (command_queues w sq) @ [SendAnywaysMessage ?i u r]"
    using q by (simp add: queue_put_def)
  ultimately show ?thesis using st by blast
qed

theorem send_anyway_action_enqueues_witness:
  "start 0 1 ''/data'' ex_servers ex_config ex_world = Inr (fst ex_boot, snd ex_boot) \<and>
   exec ex_acts (fst ex_boot, snd ex_boot) = Inr (fst ex_run, fst (snd ex_run), snd (snd ex_run)) \<and>
   0 < length (shown (notify2 (snd (snd ex_run)))) \<and>
   unverified_notification (fst ex_boot) (UnverifiedDevicesSignal ''alice'' ''!r:example'' ''Room'')
     (snd ex_boot) = Inr ex_rendered \<and>
   server_caps (notify2 (snd ex_boot)) = Some [''body'', ''actions''] \<and>
   ''actions'' \<in> set [''body'', ''actions''] \<and>
   shown (notify2 (snd (snd ex_run))) ! 0 = last (shown (notify2 ex_rendered)) \<and>
   fst ex_run = [0, 1] \<and>
   (\<exists>w'. step (Activate 0 ''send'') (fst (snd ex_run), snd (snd ex_run)) =
            Inr ([], fst (snd ex_run), w') \<and>
      items (command_queues w' 1) =
        items (command_queues (snd (snd ex_run)) 1) @
          [SendAnywaysMessage 2 ''alice'' ''!r:example''])"
proof -
  have 1: "0 < length (shown (notify2 (snd (snd ex_run))))" by code_simp
  have 2: "server_caps (notify2 (snd ex_boot)) = Some [''body'', ''actions'']" by code_simp
  have 3: "''actions'' \<in> set [''body'', ''actions'']" by simp
  have 4: "shown (notify2 (snd (snd ex_run))) ! 0 = last (shown (notify2 ex_rendered))"
    by code_simp
  have 5: "fst ex_run = [0, 1]" by code_simp
  have 6: "items (command_queues
             (snd (snd (projr (step (Activate 0 ''send'') (fst (snd ex_run), snd (snd ex_run)))))) 1) =
           items (command_queues (snd (snd ex_run)) 1) @
             [SendAnywaysMessage 2 ''alice'' ''!r:example'']"
    by code_simp
  from send_anyway_action_enqueues [OF ex_boot_start ex_run_exec 1 ex_rendered_eq 2 3 4]
  obtain i w' where r:
    "step (Activate 0 ''send'') (fst (snd ex_run), snd (snd ex_run)) =
       Inr ([], fst (snd ex_run), w')"
    "items (command_queues w' 1) =
       items (command_queues (snd (snd ex_run)) 1) @ [SendAnywaysMessage i ''alice'' ''!r:example'']"
    by blast
  have "i = 2" using 6 r by simp
  then show ?thesis
    using ex_boot_start ex_run_exec ex_rendered_eq 1 2 3 4 5 r by blast
qed

subsection \<open>C10\<close>

text \<open>
  C10. Taking a \<^verbatim>\<open>DaemonResponse\<close> changes the world in two places only: the receive
  queue loses the message and counts it as done, and the list of emitted signals gains
  the \<^verbatim>\<open>Response\<close>. Whether or not notifications are enabled, nothing is shown, and the
  interface objects, hence both caches, are as before.
\<close>

theorem daemon_response_changes_nothing_else:
  assumes "items (event_queues w (receive_queue self)) = DaemonResponse i u c m # rest"
  shows "message_callback self w =
           Inr (True, self,
                w\<lparr>signals := signals w @ [Response i u [(''code'', c), (''message'', m)]],
                  event_queues := (event_queues w)
                     (receive_queue self :=
                        (event_queues w (receive_queue self))
                          \<lparr>items := rest,
                           tasks_done := Suc (tasks_done (event_queues w (receive_queue self)))\<rparr>)\<rparr>)"
  using message_callback_DaemonResponse [OF assms] assms
  by (simp add: popped_def marked_def emit_def queue_task_done_def)

theorem daemon_response_changes_nothing_else_witness:
  "items (event_queues (snd (snd ex_reply)) (receive_queue (fst (snd ex_reply)))) =
     DaemonResponse 0 ''alice'' ''0'' ''ok'' # [UpdateDevicesMessage] \<and>
   notifications (fst (snd ex_reply)) \<and>
   message_callback (fst (snd ex_reply)) (snd (snd ex_reply)) =
     Inr (True, fst (snd ex_reply),
          (snd (snd ex_reply))
            \<lparr>signals := signals (snd (snd ex_reply)) @
                 [Response 0 ''alice'' [(''code'', ''0''), (''message'', ''ok'')]],
             event_queues := (event_queues (snd (snd ex_reply)))
               (receive_queue (fst (snd ex_reply)) :=
                  (event_queues (snd (snd ex_reply)) (receive_queue (fst (snd ex_reply))))
                    \<lparr>items := [UpdateDevicesMessage],
                     tasks_done := Suc (tasks_done (event_queues (snd (snd ex_reply))
                                          (receive_queue (fst (snd ex_reply)))))\<rparr>)\<rparr>)"
proof -
  have "notifications (fst (snd ex_reply))"
    by code_simp
  then show ?thesis
    using daemon_response_changes_nothing_else [OF ex_reply_head] ex_reply_head
    by simp
qed

end
